theory Spec2Isabelle
  imports Main "HOL-Library.Word"
begin

section \<open>The argument nodes of the Datalog abstract syntax tree (AstArgument.h)\<close>

text \<open>
  AstArgument.h declares the class \<open>AstArgument\<close> and its subclasses: variables,
  constants, functors, record constructors, type casts, aggregators and subroutine
  arguments. Every child is held in a \<open>std::unique_ptr\<close>, so a node and the nodes below
  it form a tree with a single owner; the tree is embedded as a datatype, one
  constructor for each concrete class, the fields in the order of the class and the
  source location that every \<open>AstNode\<close> carries in front.

  The headers the file includes are not part of the sources. What the embedding takes
  from them is stated where it is introduced.
\<close>

subsection \<open>Types taken from the included headers\<close>

text \<open>An \<open>assert\<close> that fails aborts the program; it is the only failure of this file.\<close>

datatype error = AssertionFailure

text \<open>
  Modelled from the spec: the source location of AstNode.h, which the spec describes as
  a tag holding a file and a line/column range. A node that has just been constructed
  holds \<open>default_loc\<close> until \<open>setSrcLoc\<close> is called.
\<close>

datatype SrcLocation = SrcLocation string nat nat nat nat

definition default_loc :: SrcLocation where
  "default_loc = SrcLocation [] 0 0 0 0"

text \<open>
  \<open>RamDomain\<close> (RamTypes.h) is the machine word every constant is stored in; the
  default build has 32 bits. \<open>RamSigned\<close> is the same type, \<open>RamUnsigned\<close> the
  unsigned integer and \<open>RamFloat\<close> the IEEE float of that width. A value of each of
  these types is represented here by its bit pattern: \<open>sint\<close> reads the pattern of a
  signed number, \<open>unat\<close> the pattern of an unsigned one, and a float is identified
  with its IEEE encoding (sign, exponent, fraction). \<open>size_t\<close> has 64 bits.
\<close>

type_synonym RamDomain = "32 word"
type_synonym RamSigned = "32 word"
type_synonym RamUnsigned = "32 word"
type_synonym RamFloat = "32 word"
type_synonym size_t = "64 word"

text \<open>The type argument of the template \<open>AstNumericConstant\<close>.\<close>

datatype numericType = Signed | Unsigned | Float

text \<open>
  \<open>AstTypeIdentifier\<close> (AstType.h) is a qualified name. A \<open>SymbolTable&\<close> is a
  reference to a table that lives outside the node; it is embedded as the identity of
  the table.
\<close>

type_synonym AstTypeIdentifier = "string list"
type_synonym SymbolTableRef = nat

text \<open>\<open>enum Op { min, max, count, sum }\<close> of \<open>AstAggregator\<close>.\<close>

datatype Op = Op_min | Op_max | Op_count | Op_sum

subsection \<open>The nodes\<close>

text \<open>
  The type parameter \<open>'op\<close> is the enumeration \<open>FunctorOp\<close> of FunctorOps.h and
  \<open>'lit\<close> is the class \<open>AstLiteral\<close>, which is only forward-declared here.
  \<open>AstNullConstant\<close> has no word of its own: its constructor always stores 0 and
  nothing can change it.
\<close>

datatype ('op, 'lit) AstArgument =
    AstVariable SrcLocation string
  | AstUnnamedVariable SrcLocation
  | AstCounter SrcLocation
  | AstStringConstant SrcLocation SymbolTableRef RamDomain
  | AstNumericConstant SrcLocation numericType RamDomain
  | AstNullConstant SrcLocation
  | AstIntrinsicFunctor SrcLocation 'op "('op, 'lit) AstArgument list"
  | AstUserDefinedFunctor SrcLocation string "('op, 'lit) AstArgument list"
  | AstRecordInit SrcLocation "('op, 'lit) AstArgument list"
  | AstTypeCast SrcLocation "('op, 'lit) AstArgument" AstTypeIdentifier
  | AstAggregator SrcLocation Op "('op, 'lit) AstArgument option" "'lit list"
  | AstSubroutineArgument SrcLocation nat

text \<open>
  A pointer to \<open>AstNode\<close> points to an argument or to a literal (the children of an
  aggregator are of both kinds).
\<close>

datatype ('op, 'lit) AstNode =
    ArgumentNode "('op, 'lit) AstArgument"
  | LiteralNode 'lit

text \<open>The dynamic type of a node, as \<open>typeid\<close> reports it.\<close>

datatype type_info =
    T_AstVariable
  | T_AstUnnamedVariable
  | T_AstCounter
  | T_AstStringConstant
  | T_AstNumericConstant numericType
  | T_AstNullConstant
  | T_AstIntrinsicFunctor
  | T_AstUserDefinedFunctor
  | T_AstRecordInit
  | T_AstTypeCast
  | T_AstAggregator
  | T_AstSubroutineArgument

fun typeid :: "('op, 'lit) AstArgument \<Rightarrow> type_info" where
  "typeid (AstVariable l n) = T_AstVariable"
| "typeid (AstUnnamedVariable l) = T_AstUnnamedVariable"
| "typeid (AstCounter l) = T_AstCounter"
| "typeid (AstStringConstant l st r) = T_AstStringConstant"
| "typeid (AstNumericConstant l k r) = T_AstNumericConstant k"
| "typeid (AstNullConstant l) = T_AstNullConstant"
| "typeid (AstIntrinsicFunctor l f as) = T_AstIntrinsicFunctor"
| "typeid (AstUserDefinedFunctor l n as) = T_AstUserDefinedFunctor"
| "typeid (AstRecordInit l as) = T_AstRecordInit"
| "typeid (AstTypeCast l v t) = T_AstTypeCast"
| "typeid (AstAggregator l f e b) = T_AstAggregator"
| "typeid (AstSubroutineArgument l n) = T_AstSubroutineArgument"

text \<open>\<open>getSrcLoc\<close> and \<open>setSrcLoc\<close> of AstNode.h read and write the location.\<close>

fun getSrcLoc :: "('op, 'lit) AstArgument \<Rightarrow> SrcLocation" where
  "getSrcLoc (AstVariable l n) = l"
| "getSrcLoc (AstUnnamedVariable l) = l"
| "getSrcLoc (AstCounter l) = l"
| "getSrcLoc (AstStringConstant l st r) = l"
| "getSrcLoc (AstNumericConstant l k r) = l"
| "getSrcLoc (AstNullConstant l) = l"
| "getSrcLoc (AstIntrinsicFunctor l f as) = l"
| "getSrcLoc (AstUserDefinedFunctor l n as) = l"
| "getSrcLoc (AstRecordInit l as) = l"
| "getSrcLoc (AstTypeCast l v t) = l"
| "getSrcLoc (AstAggregator l f e b) = l"
| "getSrcLoc (AstSubroutineArgument l n) = l"

fun setSrcLoc :: "SrcLocation \<Rightarrow> ('op, 'lit) AstArgument \<Rightarrow> ('op, 'lit) AstArgument" where
  "setSrcLoc l' (AstVariable l n) = AstVariable l' n"
| "setSrcLoc l' (AstUnnamedVariable l) = AstUnnamedVariable l'"
| "setSrcLoc l' (AstCounter l) = AstCounter l'"
| "setSrcLoc l' (AstStringConstant l st r) = AstStringConstant l' st r"
| "setSrcLoc l' (AstNumericConstant l k r) = AstNumericConstant l' k r"
| "setSrcLoc l' (AstNullConstant l) = AstNullConstant l'"
| "setSrcLoc l' (AstIntrinsicFunctor l f as) = AstIntrinsicFunctor l' f as"
| "setSrcLoc l' (AstUserDefinedFunctor l n as) = AstUserDefinedFunctor l' n as"
| "setSrcLoc l' (AstRecordInit l as) = AstRecordInit l' as"
| "setSrcLoc l' (AstTypeCast l v t) = AstTypeCast l' v t"
| "setSrcLoc l' (AstAggregator l f e b) = AstAggregator l' f e b"
| "setSrcLoc l' (AstSubroutineArgument l n) = AstSubroutineArgument l' n"

subsection \<open>AstFunctor: the argument list of both functor classes\<close>

text \<open>
  The field \<open>args\<close> of the base class \<open>AstFunctor\<close>. Only the two functor classes
  derive from it, so the accessors are defined on these two constructors alone.
\<close>

fun functor_args :: "('op, 'lit) AstArgument \<Rightarrow> ('op, 'lit) AstArgument list" where
  "functor_args (AstIntrinsicFunctor l f as) = as"
| "functor_args (AstUserDefinedFunctor l n as) = as"

fun functor_args_update ::
  "('op, 'lit) AstArgument list \<Rightarrow> ('op, 'lit) AstArgument \<Rightarrow> ('op, 'lit) AstArgument" where
  "functor_args_update as' (AstIntrinsicFunctor l f as) = AstIntrinsicFunctor l f as'"
| "functor_args_update as' (AstUserDefinedFunctor l n as) = AstUserDefinedFunctor l n as'"

definition isFunctor :: "('op, 'lit) AstArgument \<Rightarrow> bool" where
  "isFunctor x = (typeid x = T_AstIntrinsicFunctor \<or> typeid x = T_AstUserDefinedFunctor)"

definition getArity :: "('op, 'lit) AstArgument \<Rightarrow> nat" where
  "getArity x = length (functor_args x)"

text \<open>
  \<open>getArg\<close> and \<open>setArg\<close> assert \<open>idx < args.size()\<close> before they touch the
  vector.
\<close>

definition getArg :: "('op, 'lit) AstArgument \<Rightarrow> nat \<Rightarrow> error + ('op, 'lit) AstArgument" where
  "getArg x idx =
     (if idx < length (functor_args x) then Inr (functor_args x ! idx)
      else Inl AssertionFailure)"

definition setArg ::
  "('op, 'lit) AstArgument \<Rightarrow> nat \<Rightarrow> ('op, 'lit) AstArgument \<Rightarrow> error + ('op, 'lit) AstArgument" where
  "setArg x idx arg =
     (if idx < length (functor_args x)
      then Inr (functor_args_update ((functor_args x)[idx := arg]) x)
      else Inl AssertionFailure)"

subsection \<open>AstIntrinsicFunctor\<close>

text \<open>
  The variadic constructor starts from the empty vector, pushes the operands one by one
  and then asserts \<open>isValidFunctorOpArity(function, args.size())\<close>. The predicate
  belongs to FunctorOps.h and is a parameter here. The second public constructor takes
  the vector of operands as it is and asserts nothing.
\<close>

definition new_AstIntrinsicFunctor_variadic ::
  "('op \<Rightarrow> nat \<Rightarrow> bool) \<Rightarrow> 'op \<Rightarrow> ('op, 'lit) AstArgument list \<Rightarrow> error + ('op, 'lit) AstArgument" where
  "new_AstIntrinsicFunctor_variadic isValidFunctorOpArity f operands =
     (let as = foldl (\<lambda>acc cur. acc @ [cur]) [] operands
      in if isValidFunctorOpArity f (length as)
         then Inr (AstIntrinsicFunctor default_loc f as)
         else Inl AssertionFailure)"

definition new_AstIntrinsicFunctor_vector ::
  "'op \<Rightarrow> ('op, 'lit) AstArgument list \<Rightarrow> ('op, 'lit) AstArgument" where
  "new_AstIntrinsicFunctor_vector f operands = AstIntrinsicFunctor default_loc f operands"

fun getFunction :: "('op, 'lit) AstArgument \<Rightarrow> 'op" where
  "getFunction (AstIntrinsicFunctor l f as) = f"

fun setFunction :: "'op \<Rightarrow> ('op, 'lit) AstArgument \<Rightarrow> ('op, 'lit) AstArgument" where
  "setFunction g (AstIntrinsicFunctor l f as) = AstIntrinsicFunctor l g as"

subsection \<open>Constants\<close>

text \<open>
  Modelled from the spec: \<open>ramBitCast\<close> of RamTypes.h, which is not part of the
  sources. The spec describes the constant as stored via bit-reinterpretation in the
  single domain word and the decoding as the exact inverse; the class comment of
  \<open>AstConstant\<close> calls the word the bit cast of the value. The function copies the
  bytes of its argument into an object of the target type of the same size; on bit
  patterns it is the identity.
\<close>

definition ramBitCast :: "32 word \<Rightarrow> 32 word" where
  "ramBitCast source = source"

fun getRamRepresentation :: "('op, 'lit) AstArgument \<Rightarrow> RamDomain" where
  "getRamRepresentation (AstStringConstant l st r) = r"
| "getRamRepresentation (AstNumericConstant l k r) = r"
| "getRamRepresentation (AstNullConstant l) = 0"

definition new_AstNumericConstant :: "numericType \<Rightarrow> 32 word \<Rightarrow> ('op, 'lit) AstArgument" where
  "new_AstNumericConstant k v = AstNumericConstant default_loc k (ramBitCast v)"

fun getConstant :: "('op, 'lit) AstArgument \<Rightarrow> 32 word" where
  "getConstant (AstNumericConstant l k r) = ramBitCast r"

definition new_AstNullConstant :: "('op, 'lit) AstArgument" where
  "new_AstNullConstant = AstNullConstant default_loc"

subsection \<open>Numeric values and their bit patterns\<close>

text \<open>
  Modelled from the spec: the encoding of the values of the three numeric types, of which
  the spec says that signed and unsigned integers encode as their two's-complement bit
  pattern and floating values as their IEEE bit pattern. A \<open>RamSigned\<close> is an integer
  from \<open>-2^31\<close> up to \<open>2^31 - 1\<close>, a \<open>RamUnsigned\<close> a natural number below
  \<open>2^32\<close>; \<open>repr\<close> gives the bit pattern of a value and \<open>value\<close> reads a pattern.
\<close>

definition repr_signed :: "int \<Rightarrow> 32 word" where
  "repr_signed i = word_of_int i"

definition value_signed :: "32 word \<Rightarrow> int" where
  "value_signed w = sint w"

definition repr_unsigned :: "nat \<Rightarrow> 32 word" where
  "repr_unsigned n = word_of_nat n"

definition value_unsigned :: "32 word \<Rightarrow> nat" where
  "value_unsigned w = unat w"

text \<open>
  Modelled from the spec: a \<open>RamFloat\<close> as an IEEE 754 single-precision value, given by
  its sign, its biased exponent (below 256) and its fraction (below \<open>2^23\<close>). The
  exponent 255 is an infinity when the fraction is 0 and a NaN otherwise; exponent and
  fraction 0 are the two zeros. The bit pattern holds the sign in bit 31, the exponent in
  bits 23 to 30 and the fraction in bits 0 to 22.
\<close>

datatype ieee_float = IEEE bool nat nat

fun representable :: "ieee_float \<Rightarrow> bool" where
  "representable (IEEE s e m) = (e < 256 \<and> m < 2 ^ 23)"

fun isNaN :: "ieee_float \<Rightarrow> bool" where
  "isNaN (IEEE s e m) = (e = 255 \<and> m \<noteq> 0)"

fun isZero :: "ieee_float \<Rightarrow> bool" where
  "isZero (IEEE s e m) = (e = 0 \<and> m = 0)"

fun repr_float :: "ieee_float \<Rightarrow> 32 word" where
  "repr_float (IEEE s e m) = word_of_nat ((if s then 2 ^ 31 else 0) + e * 2 ^ 23 + m)"

definition value_float :: "32 word \<Rightarrow> ieee_float" where
  "value_float w = IEEE (bit w 31) (unat w div 2 ^ 23 mod 256) (unat w mod 2 ^ 23)"

text \<open>
  The comparison \<open>==\<close> of two floats: false when one of them is a NaN, true for two
  zeros of either sign, and otherwise true exactly for the same value.
\<close>

definition float_eq :: "ieee_float \<Rightarrow> ieee_float \<Rightarrow> bool" where
  "float_eq a b = (\<not> isNaN a \<and> \<not> isNaN b \<and> (a = b \<or> (isZero a \<and> isZero b)))"

subsection \<open>Variables, user-defined functors, records, type casts, aggregators\<close>

definition new_AstVariable :: "string \<Rightarrow> ('op, 'lit) AstArgument" where
  "new_AstVariable n = AstVariable default_loc n"

definition new_AstUnnamedVariable :: "('op, 'lit) AstArgument" where
  "new_AstUnnamedVariable = AstUnnamedVariable default_loc"

definition new_AstCounter :: "('op, 'lit) AstArgument" where
  "new_AstCounter = AstCounter default_loc"

definition new_AstSubroutineArgument :: "nat \<Rightarrow> ('op, 'lit) AstArgument" where
  "new_AstSubroutineArgument n = AstSubroutineArgument default_loc n"

text \<open>\<open>getName\<close> and \<open>setName\<close> exist in \<open>AstVariable\<close> and in \<open>AstUserDefinedFunctor\<close>.\<close>

fun getName :: "('op, 'lit) AstArgument \<Rightarrow> string" where
  "getName (AstVariable l n) = n"
| "getName (AstUserDefinedFunctor l n as) = n"

fun setName :: "string \<Rightarrow> ('op, 'lit) AstArgument \<Rightarrow> ('op, 'lit) AstArgument" where
  "setName n' (AstVariable l n) = AstVariable l n'"
| "setName n' (AstUserDefinedFunctor l n as) = AstUserDefinedFunctor l n' as"

text \<open>The default constructor of \<open>AstUserDefinedFunctor\<close> and the one with name and arguments.\<close>

definition new_AstUserDefinedFunctor :: "('op, 'lit) AstArgument" where
  "new_AstUserDefinedFunctor = AstUserDefinedFunctor default_loc [] []"

definition new_AstUserDefinedFunctor_named ::
  "string \<Rightarrow> ('op, 'lit) AstArgument list \<Rightarrow> ('op, 'lit) AstArgument" where
  "new_AstUserDefinedFunctor_named n as = AstUserDefinedFunctor default_loc n as"

definition new_AstRecordInit :: "('op, 'lit) AstArgument" where
  "new_AstRecordInit = AstRecordInit default_loc []"

text \<open>\<open>add\<close> of \<open>AstUserDefinedFunctor\<close> and of \<open>AstRecordInit\<close>: \<open>args.push_back\<close>.\<close>

fun add :: "('op, 'lit) AstArgument \<Rightarrow> ('op, 'lit) AstArgument \<Rightarrow> ('op, 'lit) AstArgument" where
  "add arg (AstUserDefinedFunctor l n as) = AstUserDefinedFunctor l n (as @ [arg])"
| "add arg (AstRecordInit l as) = AstRecordInit l (as @ [arg])"

text \<open>\<open>getArguments\<close> of \<open>AstFunctor\<close> and of \<open>AstRecordInit\<close>.\<close>

fun getArguments :: "('op, 'lit) AstArgument \<Rightarrow> ('op, 'lit) AstArgument list" where
  "getArguments (AstIntrinsicFunctor l f as) = as"
| "getArguments (AstUserDefinedFunctor l n as) = as"
| "getArguments (AstRecordInit l as) = as"

definition new_AstTypeCast ::
  "('op, 'lit) AstArgument \<Rightarrow> AstTypeIdentifier \<Rightarrow> ('op, 'lit) AstArgument" where
  "new_AstTypeCast v t = AstTypeCast default_loc v t"

fun getValue :: "('op, 'lit) AstArgument \<Rightarrow> ('op, 'lit) AstArgument" where
  "getValue (AstTypeCast l v t) = v"

fun getType :: "('op, 'lit) AstArgument \<Rightarrow> AstTypeIdentifier" where
  "getType (AstTypeCast l v t) = t"

fun setType :: "AstTypeIdentifier \<Rightarrow> ('op, 'lit) AstArgument \<Rightarrow> ('op, 'lit) AstArgument" where
  "setType t' (AstTypeCast l v t) = AstTypeCast l v t'"

definition new_AstAggregator :: "Op \<Rightarrow> ('op, 'lit) AstArgument" where
  "new_AstAggregator f = AstAggregator default_loc f None []"

fun getOperator :: "('op, 'lit) AstArgument \<Rightarrow> Op" where
  "getOperator (AstAggregator l f e b) = f"

fun setTargetExpression :: "('op, 'lit) AstArgument \<Rightarrow> ('op, 'lit) AstArgument \<Rightarrow> ('op, 'lit) AstArgument" where
  "setTargetExpression arg (AstAggregator l f e b) = AstAggregator l f (Some arg) b"

fun getTargetExpression :: "('op, 'lit) AstArgument \<Rightarrow> ('op, 'lit) AstArgument option" where
  "getTargetExpression (AstAggregator l f e b) = e"

fun getBodyLiterals :: "('op, 'lit) AstArgument \<Rightarrow> 'lit list" where
  "getBodyLiterals (AstAggregator l f e b) = b"

fun clearBodyLiterals :: "('op, 'lit) AstArgument \<Rightarrow> ('op, 'lit) AstArgument" where
  "clearBodyLiterals (AstAggregator l f e b) = AstAggregator l f e []"

fun addBodyLiteral :: "'lit \<Rightarrow> ('op, 'lit) AstArgument \<Rightarrow> ('op, 'lit) AstArgument" where
  "addBodyLiteral lit (AstAggregator l f e b) = AstAggregator l f e (b @ [lit])"

fun getNumber :: "('op, 'lit) AstArgument \<Rightarrow> nat" where
  "getNumber (AstSubroutineArgument l n) = n"

subsection \<open>Child enumeration\<close>

text \<open>
  \<open>AstArgument::getChildNodes\<close> returns the empty vector; the functor classes, the
  record and the type cast push their children onto it. \<open>AstAggregator\<close> declares its
  override here and defines it in another file.
\<close>

text \<open>
  Modelled from the spec: the body of \<open>AstAggregator::getChildNodes\<close>, of which the spec
  says that the order is the target expression (if set) followed by the body literals in
  append order.
\<close>

definition AstAggregator_getChildNodes ::
  "('op, 'lit) AstArgument option \<Rightarrow> 'lit list \<Rightarrow> ('op, 'lit) AstNode list" where
  "AstAggregator_getChildNodes expr body =
     (case expr of None \<Rightarrow> [] | Some x \<Rightarrow> [ArgumentNode x]) @ map LiteralNode body"

fun getChildNodes :: "('op, 'lit) AstArgument \<Rightarrow> ('op, 'lit) AstNode list" where
  "getChildNodes (AstIntrinsicFunctor l f as) = foldl (\<lambda>res cur. res @ [ArgumentNode cur]) [] as"
| "getChildNodes (AstUserDefinedFunctor l n as) = foldl (\<lambda>res cur. res @ [ArgumentNode cur]) [] as"
| "getChildNodes (AstRecordInit l as) = foldl (\<lambda>res cur. res @ [ArgumentNode cur]) [] as"
| "getChildNodes (AstTypeCast l v t) = [] @ [ArgumentNode v]"
| "getChildNodes (AstAggregator l f e b) = AstAggregator_getChildNodes e b"
| "getChildNodes _ = []"

subsection \<open>Rewriting the children\<close>

text \<open>
  An \<open>AstNodeMapper\<close> (AstNode.h) takes ownership of a node and returns the node that
  replaces it; it is a function object and may keep a state of its own. \<open>apply\<close>
  calls it on a \<open>std::unique_ptr<AstArgument>\<close> for arguments and on a
  \<open>std::unique_ptr<AstLiteral>\<close> for the body of an aggregator; the mapper is embedded
  as the two functions that these calls compute, each passing the mapper's state \<open>'s\<close>
  on.
\<close>

type_synonym ('op, 'lit, 's) arg_mapper =
  "('op, 'lit) AstArgument \<Rightarrow> 's \<Rightarrow> ('op, 'lit) AstArgument \<times> 's"

type_synonym ('lit, 's) lit_mapper = "'lit \<Rightarrow> 's \<Rightarrow> 'lit \<times> 's"

text \<open>The loop \<open>for (auto& cur : v) cur = map(std::move(cur))\<close>.\<close>

fun apply_each :: "('a \<Rightarrow> 's \<Rightarrow> 'a \<times> 's) \<Rightarrow> 'a list \<Rightarrow> 's \<Rightarrow> 'a list \<times> 's" where
  "apply_each m [] s = ([], s)"
| "apply_each m (cur # rest) s =
     (case m cur s of (cur', s') \<Rightarrow>
        (case apply_each m rest s' of (rest', s'') \<Rightarrow> (cur' # rest', s'')))"

fun apply_node ::
  "('op, 'lit, 's) arg_mapper \<Rightarrow> ('lit, 's) lit_mapper \<Rightarrow> ('op, 'lit) AstArgument \<Rightarrow> 's
     \<Rightarrow> ('op, 'lit) AstArgument \<times> 's" where
  "apply_node ma ml (AstIntrinsicFunctor l f as) s =
     (case apply_each ma as s of (as', s') \<Rightarrow> (AstIntrinsicFunctor l f as', s'))"
| "apply_node ma ml (AstUserDefinedFunctor l n as) s =
     (case apply_each ma as s of (as', s') \<Rightarrow> (AstUserDefinedFunctor l n as', s'))"
| "apply_node ma ml (AstRecordInit l as) s =
     (case apply_each ma as s of (as', s') \<Rightarrow> (AstRecordInit l as', s'))"
| "apply_node ma ml (AstTypeCast l v t) s =
     (case ma v s of (v', s') \<Rightarrow> (AstTypeCast l v' t, s'))"
| "apply_node ma ml (AstAggregator l f e b) s =
     (case (case e of None \<Rightarrow> (None, s)
                    | Some x \<Rightarrow> (case ma x s of (x', s') \<Rightarrow> (Some x', s'))) of
        (e', s1) \<Rightarrow> (case apply_each ml b s1 of (b', s2) \<Rightarrow> (AstAggregator l f e' b', s2)))"
| "apply_node ma ml x s = (x, s)"

text \<open>
  The same mapper seen as the virtual \<open>operator()\<close> on pointers to \<open>AstNode\<close>.
\<close>

definition node_mapper ::
  "('op, 'lit, 's) arg_mapper \<Rightarrow> ('lit, 's) lit_mapper \<Rightarrow> ('op, 'lit) AstNode \<Rightarrow> 's
     \<Rightarrow> ('op, 'lit) AstNode \<times> 's" where
  "node_mapper ma ml node s =
     (case node of
        ArgumentNode a \<Rightarrow> (case ma a s of (a', s') \<Rightarrow> (ArgumentNode a', s'))
      | LiteralNode lit \<Rightarrow> (case ml lit s of (lit', s') \<Rightarrow> (LiteralNode lit', s')))"

subsection \<open>Structural equality\<close>

text \<open>
  Every class overrides the protected method \<open>equal\<close>, which first asserts that the
  other node can be cast to the class and then compares the fields. \<open>AstConstant\<close>
  asserts a cast to \<open>AstConstant\<close>, which every constant passes.
\<close>

fun constant_word :: "('op, 'lit) AstArgument \<Rightarrow> RamDomain option" where
  "constant_word (AstStringConstant l st r) = Some r"
| "constant_word (AstNumericConstant l k r) = Some r"
| "constant_word (AstNullConstant l) = Some 0"
| "constant_word _ = None"

definition AstConstant_equal :: "RamDomain \<Rightarrow> ('op, 'lit) AstArgument \<Rightarrow> error + bool" where
  "AstConstant_equal r node =
     (case constant_word node of None \<Rightarrow> Inl AssertionFailure | Some r' \<Rightarrow> Inr (r = r'))"

text \<open>
  Modelled from the spec: \<open>equal_targets\<close> of Util.h on the body of an aggregator. Two
  vectors are equal when they have the same size and equal elements at every position;
  the comparison of two literals belongs to \<open>AstLiteral\<close> and is the parameter \<open>le\<close>.
\<close>

definition lit_equal_targets :: "('lit \<Rightarrow> 'lit \<Rightarrow> bool) \<Rightarrow> 'lit list \<Rightarrow> 'lit list \<Rightarrow> bool" where
  "lit_equal_targets le a b = (if length a \<noteq> length b then False else list_all2 le a b)"

text \<open>
  Modelled from the spec: the functions \<open>node_eq\<close>, \<open>equal_targets\<close> and
  \<open>std_equal\<close> below, for \<open>operator==\<close> of AstNode.h and \<open>equal_targets\<close> and
  \<open>equal_ptr\<close> of Util.h. The spec says that the comparison first rejects on
  mismatched variant, always with \<open>false\<close>, then compares the payload of the variant
  (the method \<open>equal\<close>) and compares owned children pairwise in order. \<open>node_eq\<close> is
  the comparison of two nodes; \<open>equal_targets\<close> compares two vectors (the sizes, then
  \<open>std_equal\<close> over the elements); two optional children are equal when both are
  absent or both are present and equal. The function \<open>equal_node\<close> is the method
  \<open>equal\<close> of the classes of this file, embedded from the source: the assertion on
  the class of the other node, then the fields in the order of the \<open>&&\<close>.
  \<open>std_equal\<close> runs over the first vector; the second one is never the shorter,
  \<open>equal_targets\<close> having compared the sizes, so the branch for an exhausted second
  vector is never taken.
\<close>

fun node_eq ::
    "('lit \<Rightarrow> 'lit \<Rightarrow> bool) \<Rightarrow> ('op, 'lit) AstArgument \<Rightarrow> ('op, 'lit) AstArgument \<Rightarrow> error + bool"
  and equal_node ::
    "('lit \<Rightarrow> 'lit \<Rightarrow> bool) \<Rightarrow> ('op, 'lit) AstArgument \<Rightarrow> ('op, 'lit) AstArgument \<Rightarrow> error + bool"
  and equal_targets ::
    "('lit \<Rightarrow> 'lit \<Rightarrow> bool) \<Rightarrow> ('op, 'lit) AstArgument list \<Rightarrow> ('op, 'lit) AstArgument list
       \<Rightarrow> error + bool"
  and std_equal ::
    "('lit \<Rightarrow> 'lit \<Rightarrow> bool) \<Rightarrow> ('op, 'lit) AstArgument list \<Rightarrow> ('op, 'lit) AstArgument list
       \<Rightarrow> error + bool"
where
  "node_eq le x y = (if typeid x = typeid y then equal_node le x y else Inr False)"
| "equal_node le (AstVariable l n) node =
     (case node of AstVariable l' n' \<Rightarrow> Inr (n = n') | _ \<Rightarrow> Inl AssertionFailure)"
| "equal_node le (AstUnnamedVariable l) node =
     (case node of AstUnnamedVariable l' \<Rightarrow> Inr True | _ \<Rightarrow> Inl AssertionFailure)"
| "equal_node le (AstCounter l) node =
     (case node of AstCounter l' \<Rightarrow> Inr True | _ \<Rightarrow> Inl AssertionFailure)"
| "equal_node le (AstStringConstant l st r) node = AstConstant_equal r node"
| "equal_node le (AstNumericConstant l k r) node = AstConstant_equal r node"
| "equal_node le (AstNullConstant l) node = AstConstant_equal 0 node"
| "equal_node le (AstIntrinsicFunctor l f as) node =
     (case node of
        AstIntrinsicFunctor l' f' as' \<Rightarrow> if f = f' then equal_targets le as as' else Inr False
      | _ \<Rightarrow> Inl AssertionFailure)"
| "equal_node le (AstUserDefinedFunctor l n as) node =
     (case node of
        AstUserDefinedFunctor l' n' as' \<Rightarrow> if n = n' then equal_targets le as as' else Inr False
      | _ \<Rightarrow> Inl AssertionFailure)"
| "equal_node le (AstRecordInit l as) node =
     (case node of
        AstRecordInit l' as' \<Rightarrow> equal_targets le as as'
      | _ \<Rightarrow> Inl AssertionFailure)"
| "equal_node le (AstTypeCast l v t) node =
     (case node of
        AstTypeCast l' v' t' \<Rightarrow> if t = t' then node_eq le v v' else Inr False
      | _ \<Rightarrow> Inl AssertionFailure)"
| "equal_node le (AstAggregator l f e b) node =
     (case node of
        AstAggregator l' f' e' b' \<Rightarrow>
          if f = f'
          then (case (case (e, e') of
                        (None, None) \<Rightarrow> Inr True
                      | (Some a, Some a') \<Rightarrow> node_eq le a a'
                      | _ \<Rightarrow> Inr False) of
                  Inl err \<Rightarrow> Inl err
                | Inr False \<Rightarrow> Inr False
                | Inr True \<Rightarrow> Inr (lit_equal_targets le b b'))
          else Inr False
      | _ \<Rightarrow> Inl AssertionFailure)"
| "equal_node le (AstSubroutineArgument l n) node =
     (case node of AstSubroutineArgument l' n' \<Rightarrow> Inr (n = n') | _ \<Rightarrow> Inl AssertionFailure)"
| "equal_targets le as bs = (if length as \<noteq> length bs then Inr False else std_equal le as bs)"
| "std_equal le [] bs = Inr True"
| "std_equal le (a # as) bs =
     (case bs of
        [] \<Rightarrow> Inr True
      | b # bs' \<Rightarrow>
          (case node_eq le a b of
             Inl err \<Rightarrow> Inl err
           | Inr False \<Rightarrow> Inr False
           | Inr True \<Rightarrow> std_equal le as bs'))"

text \<open>
  The comparison without the failure branch, used to reason about \<open>node_eq\<close>: two
  nodes of the same class whose payloads agree and whose children agree pairwise.
\<close>

fun structurally_equal ::
  "('lit \<Rightarrow> 'lit \<Rightarrow> bool) \<Rightarrow> ('op, 'lit) AstArgument \<Rightarrow> ('op, 'lit) AstArgument \<Rightarrow> bool" where
  "structurally_equal le (AstVariable l n) y =
     (case y of AstVariable l' n' \<Rightarrow> n = n' | _ \<Rightarrow> False)"
| "structurally_equal le (AstUnnamedVariable l) y =
     (case y of AstUnnamedVariable l' \<Rightarrow> True | _ \<Rightarrow> False)"
| "structurally_equal le (AstCounter l) y =
     (case y of AstCounter l' \<Rightarrow> True | _ \<Rightarrow> False)"
| "structurally_equal le (AstStringConstant l st r) y =
     (case y of AstStringConstant l' st' r' \<Rightarrow> r = r' | _ \<Rightarrow> False)"
| "structurally_equal le (AstNumericConstant l k r) y =
     (case y of AstNumericConstant l' k' r' \<Rightarrow> k = k' \<and> r = r' | _ \<Rightarrow> False)"
| "structurally_equal le (AstNullConstant l) y =
     (case y of AstNullConstant l' \<Rightarrow> True | _ \<Rightarrow> False)"
| "structurally_equal le (AstIntrinsicFunctor l f as) y =
     (case y of AstIntrinsicFunctor l' f' as' \<Rightarrow> f = f' \<and> list_all2 (structurally_equal le) as as'
      | _ \<Rightarrow> False)"
| "structurally_equal le (AstUserDefinedFunctor l n as) y =
     (case y of AstUserDefinedFunctor l' n' as' \<Rightarrow> n = n' \<and> list_all2 (structurally_equal le) as as'
      | _ \<Rightarrow> False)"
| "structurally_equal le (AstRecordInit l as) y =
     (case y of AstRecordInit l' as' \<Rightarrow> list_all2 (structurally_equal le) as as' | _ \<Rightarrow> False)"
| "structurally_equal le (AstTypeCast l v t) y =
     (case y of AstTypeCast l' v' t' \<Rightarrow> t = t' \<and> structurally_equal le v v' | _ \<Rightarrow> False)"
| "structurally_equal le (AstAggregator l f e b) y =
     (case y of
        AstAggregator l' f' e' b' \<Rightarrow>
          f = f' \<and>
          (case (e, e') of
             (None, None) \<Rightarrow> True
           | (Some a, Some a') \<Rightarrow> structurally_equal le a a'
           | _ \<Rightarrow> False) \<and>
          list_all2 le b b'
      | _ \<Rightarrow> False)"
| "structurally_equal le (AstSubroutineArgument l n) y =
     (case y of AstSubroutineArgument l' n' \<Rightarrow> n = n' | _ \<Rightarrow> False)"

text \<open>
  \<open>relocate g\<close> replaces the source location \<open>l\<close> of every node of a tree by
  \<open>g l\<close>; it is used to state that the comparison does not read locations.
\<close>

fun relocate :: "(SrcLocation \<Rightarrow> SrcLocation) \<Rightarrow> ('op, 'lit) AstArgument \<Rightarrow> ('op, 'lit) AstArgument" where
  "relocate g (AstVariable l n) = AstVariable (g l) n"
| "relocate g (AstUnnamedVariable l) = AstUnnamedVariable (g l)"
| "relocate g (AstCounter l) = AstCounter (g l)"
| "relocate g (AstStringConstant l st r) = AstStringConstant (g l) st r"
| "relocate g (AstNumericConstant l k r) = AstNumericConstant (g l) k r"
| "relocate g (AstNullConstant l) = AstNullConstant (g l)"
| "relocate g (AstIntrinsicFunctor l f as) = AstIntrinsicFunctor (g l) f (map (relocate g) as)"
| "relocate g (AstUserDefinedFunctor l n as) = AstUserDefinedFunctor (g l) n (map (relocate g) as)"
| "relocate g (AstRecordInit l as) = AstRecordInit (g l) (map (relocate g) as)"
| "relocate g (AstTypeCast l v t) = AstTypeCast (g l) (relocate g v) t"
| "relocate g (AstAggregator l f e b) = AstAggregator (g l) f (map_option (relocate g) e) b"
| "relocate g (AstSubroutineArgument l n) = AstSubroutineArgument (g l) n"

subsection \<open>Cloning\<close>

text \<open>
  The private constructor of \<open>AstStringConstant\<close> takes the index as a \<open>size_t\<close> and
  passes it to \<open>AstConstant(RamDomain)\<close>, which narrows it to the domain word.
\<close>

definition new_AstStringConstant_index :: "SymbolTableRef \<Rightarrow> size_t \<Rightarrow> ('op, 'lit) AstArgument" where
  "new_AstStringConstant_index symTable index = AstStringConstant default_loc symTable (ucast index)"

text \<open>
  Modelled from the spec: the body of \<open>AstAggregator::clone\<close>, which is declared here
  and defined in another file. The spec says that \<open>clone\<close> returns a new node of the
  same variant, with every owned child cloned and the source location copied. \<open>expr\<close>
  is the clone of the target expression, if there is one; the clone of a literal belongs
  to \<open>AstLiteral\<close> and is the parameter \<open>lc\<close>.
\<close>

definition AstAggregator_clone ::
  "('lit \<Rightarrow> 'lit) \<Rightarrow> SrcLocation \<Rightarrow> Op \<Rightarrow> ('op, 'lit) AstArgument option \<Rightarrow> 'lit list
     \<Rightarrow> ('op, 'lit) AstArgument" where
  "AstAggregator_clone lc l f expr body =
     setSrcLoc l
       (foldl (\<lambda>res cur. addBodyLiteral (lc cur) res)
          (case expr of None \<Rightarrow> new_AstAggregator f
                      | Some x \<Rightarrow> setTargetExpression x (new_AstAggregator f)) body)"

text \<open>
  \<open>clone\<close> of every class constructs a node from the fields of the node and the
  clones of its children and copies the location with \<open>setSrcLoc(getSrcLoc())\<close>. The
  string constant passes its word to the private constructor, which converts it to
  \<open>size_t\<close> (with sign extension, \<open>scast\<close>). The numeric constant passes the value
  that \<open>getConstant\<close> decodes to the public constructor.
\<close>

fun clone :: "('lit \<Rightarrow> 'lit) \<Rightarrow> ('op, 'lit) AstArgument \<Rightarrow> ('op, 'lit) AstArgument" where
  "clone lc (AstVariable l n) = setSrcLoc l (new_AstVariable n)"
| "clone lc (AstUnnamedVariable l) = setSrcLoc l new_AstUnnamedVariable"
| "clone lc (AstCounter l) = setSrcLoc l new_AstCounter"
| "clone lc (AstStringConstant l st r) = setSrcLoc l (new_AstStringConstant_index st (scast r))"
| "clone lc (AstNumericConstant l k r) =
     setSrcLoc l (new_AstNumericConstant k
       (getConstant (AstNumericConstant l k r :: ('op, 'lit) AstArgument)))"
| "clone lc (AstNullConstant l) = setSrcLoc l new_AstNullConstant"
| "clone lc (AstIntrinsicFunctor l f as) =
     setSrcLoc l (new_AstIntrinsicFunctor_vector f
       (foldl (\<lambda>argsCopy arg. argsCopy @ [clone lc arg]) [] as))"
| "clone lc (AstUserDefinedFunctor l n as) =
     setName n (setSrcLoc l
       (foldl (\<lambda>res cur. add (clone lc cur) res) new_AstUserDefinedFunctor as))"
| "clone lc (AstRecordInit l as) =
     setSrcLoc l (foldl (\<lambda>res cur. add (clone lc cur) res) new_AstRecordInit as)"
| "clone lc (AstTypeCast l v t) = setSrcLoc l (new_AstTypeCast (clone lc v) t)"
| "clone lc (AstAggregator l f e b) =
     AstAggregator_clone lc l f (case e of None \<Rightarrow> None | Some x \<Rightarrow> Some (clone lc x)) b"
| "clone lc (AstSubroutineArgument l n) = setSrcLoc l (new_AstSubroutineArgument n)"

definition clone_node :: "('lit \<Rightarrow> 'lit) \<Rightarrow> ('op, 'lit) AstNode \<Rightarrow> ('op, 'lit) AstNode" where
  "clone_node lc node =
     (case node of ArgumentNode a \<Rightarrow> ArgumentNode (clone lc a) | LiteralNode lit \<Rightarrow> LiteralNode (lc lit))"

section \<open>The nodes as objects in memory\<close>

text \<open>
  A claim about what a clone shares with its original, or about what a call does to the
  symbol table, is a claim about objects and pointers. For these the nodes are embedded
  a second time, as objects in a store: an object holds the fields of its class, a
  \<open>std::unique_ptr\<close> being the address of the object it owns (an absent target
  expression is the null pointer, \<open>None\<close>). The body literals of an aggregator are
  kept as values, their class being outside this file.
\<close>

type_synonym addr = nat

datatype ('op, 'lit) object =
    ObjVariable SrcLocation string
  | ObjUnnamedVariable SrcLocation
  | ObjCounter SrcLocation
  | ObjStringConstant SrcLocation SymbolTableRef RamDomain
  | ObjNumericConstant SrcLocation numericType RamDomain
  | ObjNullConstant SrcLocation
  | ObjIntrinsicFunctor SrcLocation 'op "addr list"
  | ObjUserDefinedFunctor SrcLocation string "addr list"
  | ObjRecordInit SrcLocation "addr list"
  | ObjTypeCast SrcLocation addr AstTypeIdentifier
  | ObjAggregator SrcLocation Op "addr option" "'lit list"
  | ObjSubroutineArgument SrcLocation nat

text \<open>
  Modelled from the spec: the symbol table (SymbolTable.h), of which the spec says that
  it maps texts to stable indices. The table is the list of the interned texts, the index
  of a text being its position (\<open>index_of\<close>).
\<close>

type_synonym SymbolTable = "string list"

fun index_of :: "string \<Rightarrow> string list \<Rightarrow> nat" where
  "index_of c [] = 0"
| "index_of c (x # xs) = (if x = c then 0 else Suc (index_of c xs))"

text \<open>
  Modelled from the spec: \<open>lookup(text) -> index\<close>, which interns the text if it is
  absent and is stable thereafter. It returns the index and the table after the call.
\<close>

definition lookup :: "SymbolTable \<Rightarrow> string \<Rightarrow> RamDomain \<times> SymbolTable" where
  "lookup tab c =
     (if c \<in> set tab then (of_nat (index_of c tab), tab)
      else (of_nat (length tab), tab @ [c]))"

text \<open>
  The store: the objects, an address being a position in the list, and the symbol
  tables that string constants refer to. \<open>new\<close> returns an address that no object
  has yet; addresses are given in the order in which the constructors complete.
\<close>

record ('op, 'lit) store =
  objects :: "('op, 'lit) object list"
  tables :: "SymbolTableRef \<Rightarrow> SymbolTable"

definition alloc :: "('op, 'lit) object \<Rightarrow> ('op, 'lit) store \<Rightarrow> addr \<times> ('op, 'lit) store" where
  "alloc obj \<sigma> = (length (objects \<sigma>), \<sigma>\<lparr>objects := objects \<sigma> @ [obj]\<rparr>)"

definition update_object ::
  "addr \<Rightarrow> (('op, 'lit) object \<Rightarrow> ('op, 'lit) object) \<Rightarrow> ('op, 'lit) store \<Rightarrow> ('op, 'lit) store" where
  "update_object a g \<sigma> = \<sigma>\<lparr>objects := (objects \<sigma>)[a := g (objects \<sigma> ! a)]\<rparr>"

fun obj_setSrcLoc :: "SrcLocation \<Rightarrow> ('op, 'lit) object \<Rightarrow> ('op, 'lit) object" where
  "obj_setSrcLoc l' (ObjVariable l n) = ObjVariable l' n"
| "obj_setSrcLoc l' (ObjUnnamedVariable l) = ObjUnnamedVariable l'"
| "obj_setSrcLoc l' (ObjCounter l) = ObjCounter l'"
| "obj_setSrcLoc l' (ObjStringConstant l st r) = ObjStringConstant l' st r"
| "obj_setSrcLoc l' (ObjNumericConstant l k r) = ObjNumericConstant l' k r"
| "obj_setSrcLoc l' (ObjNullConstant l) = ObjNullConstant l'"
| "obj_setSrcLoc l' (ObjIntrinsicFunctor l f as) = ObjIntrinsicFunctor l' f as"
| "obj_setSrcLoc l' (ObjUserDefinedFunctor l n as) = ObjUserDefinedFunctor l' n as"
| "obj_setSrcLoc l' (ObjRecordInit l as) = ObjRecordInit l' as"
| "obj_setSrcLoc l' (ObjTypeCast l v t) = ObjTypeCast l' v t"
| "obj_setSrcLoc l' (ObjAggregator l f e b) = ObjAggregator l' f e b"
| "obj_setSrcLoc l' (ObjSubroutineArgument l n) = ObjSubroutineArgument l' n"

fun obj_setName :: "string \<Rightarrow> ('op, 'lit) object \<Rightarrow> ('op, 'lit) object" where
  "obj_setName n' (ObjVariable l n) = ObjVariable l n'"
| "obj_setName n' (ObjUserDefinedFunctor l n as) = ObjUserDefinedFunctor l n' as"

text \<open>\<open>args.emplace_back\<close> on the object of a user-defined functor or of a record.\<close>

fun obj_emplace_back :: "addr \<Rightarrow> ('op, 'lit) object \<Rightarrow> ('op, 'lit) object" where
  "obj_emplace_back c (ObjUserDefinedFunctor l n as) = ObjUserDefinedFunctor l n (as @ [c])"
| "obj_emplace_back c (ObjRecordInit l as) = ObjRecordInit l (as @ [c])"

definition setSrcLoc_at :: "addr \<Rightarrow> SrcLocation \<Rightarrow> ('op, 'lit) store \<Rightarrow> ('op, 'lit) store" where
  "setSrcLoc_at a l = update_object a (obj_setSrcLoc l)"

definition setName_at :: "addr \<Rightarrow> string \<Rightarrow> ('op, 'lit) store \<Rightarrow> ('op, 'lit) store" where
  "setName_at a n = update_object a (obj_setName n)"

text \<open>\<open>AstTypeCast::getValue\<close> returns the pointer to the wrapped value.\<close>

definition getValue_at :: "addr \<Rightarrow> ('op, 'lit) store \<Rightarrow> addr option" where
  "getValue_at a \<sigma> =
     (if a < length (objects \<sigma>)
      then (case objects \<sigma> ! a of ObjTypeCast l v t \<Rightarrow> Some v | _ \<Rightarrow> None)
      else None)"

text \<open>
  The public constructor of \<open>AstStringConstant\<close> looks the text up, which interns it
  when the table does not hold it yet; the private one stores the index it is given.
\<close>

definition new_AstStringConstant_at ::
  "SymbolTableRef \<Rightarrow> string \<Rightarrow> ('op, 'lit) store \<Rightarrow> addr \<times> ('op, 'lit) store" where
  "new_AstStringConstant_at symTable c \<sigma> =
     (case lookup (tables \<sigma> symTable) c of
        (i, tab') \<Rightarrow>
          alloc (ObjStringConstant default_loc symTable i)
            (\<sigma>\<lparr>tables := (tables \<sigma>)(symTable := tab')\<rparr>))"

definition new_AstStringConstant_index_at ::
  "SymbolTableRef \<Rightarrow> size_t \<Rightarrow> ('op, 'lit) store \<Rightarrow> addr \<times> ('op, 'lit) store" where
  "new_AstStringConstant_index_at symTable index \<sigma> =
     alloc (ObjStringConstant default_loc symTable (ucast index)) \<sigma>"

text \<open>
  Modelled from the spec: \<open>AstAggregator::clone\<close> on objects (see
  \<open>AstAggregator_clone\<close>): the new aggregator holds the operator, the clone \<open>expr\<close>
  of the target expression if there is one, the clones of the body literals and the
  location of the original.
\<close>

definition AstAggregator_clone_at ::
  "('lit \<Rightarrow> 'lit) \<Rightarrow> SrcLocation \<Rightarrow> Op \<Rightarrow> addr option \<Rightarrow> 'lit list \<Rightarrow> ('op, 'lit) store
     \<Rightarrow> addr \<times> ('op, 'lit) store" where
  "AstAggregator_clone_at lc l f expr body \<sigma> =
     (case alloc (ObjAggregator default_loc f expr (map lc body)) \<sigma> of
        (res, \<sigma>1) \<Rightarrow> (res, setSrcLoc_at res l \<sigma>1))"

text \<open>
  \<open>clone\<close> on objects. The recursion follows the pointers in the store, which the
  function cannot know to be acyclic, so it runs on fuel: \<open>None\<close> is the result when
  the fuel runs out or a pointer does not point to an object. \<open>clone_args\<close> is the
  loop that collects the clones in the local vector \<open>argsCopy\<close> (intrinsic functor),
  \<open>clone_push\<close> the loop that pushes each clone onto the arguments of the new object
  \<open>res\<close> (user-defined functor and record, whose new object exists before the
  children are cloned).
\<close>

fun clone_at ::
    "('lit \<Rightarrow> 'lit) \<Rightarrow> nat \<Rightarrow> addr \<Rightarrow> ('op, 'lit) store \<Rightarrow> (addr \<times> ('op, 'lit) store) option"
  and clone_args ::
    "('lit \<Rightarrow> 'lit) \<Rightarrow> nat \<Rightarrow> addr list \<Rightarrow> addr list \<Rightarrow> ('op, 'lit) store
       \<Rightarrow> (addr list \<times> ('op, 'lit) store) option"
  and clone_push ::
    "('lit \<Rightarrow> 'lit) \<Rightarrow> nat \<Rightarrow> addr \<Rightarrow> addr list \<Rightarrow> ('op, 'lit) store \<Rightarrow> ('op, 'lit) store option"
where
  "clone_at lc 0 a \<sigma> = None"
| "clone_at lc (Suc k) a \<sigma> =
     (if length (objects \<sigma>) \<le> a then None
      else
        (case objects \<sigma> ! a of
           ObjVariable l n \<Rightarrow>
             (case alloc (ObjVariable default_loc n) \<sigma> of
                (res, \<sigma>1) \<Rightarrow> Some (res, setSrcLoc_at res l \<sigma>1))
         | ObjUnnamedVariable l \<Rightarrow>
             (case alloc (ObjUnnamedVariable default_loc) \<sigma> of
                (res, \<sigma>1) \<Rightarrow> Some (res, setSrcLoc_at res l \<sigma>1))
         | ObjCounter l \<Rightarrow>
             (case alloc (ObjCounter default_loc) \<sigma> of
                (res, \<sigma>1) \<Rightarrow> Some (res, setSrcLoc_at res l \<sigma>1))
         | ObjStringConstant l st r \<Rightarrow>
             (case new_AstStringConstant_index_at st (scast r) \<sigma> of
                (res, \<sigma>1) \<Rightarrow> Some (res, setSrcLoc_at res l \<sigma>1))
         | ObjNumericConstant l t r \<Rightarrow>
             (case alloc (ObjNumericConstant default_loc t (ramBitCast (ramBitCast r))) \<sigma> of
                (res, \<sigma>1) \<Rightarrow> Some (res, setSrcLoc_at res l \<sigma>1))
         | ObjNullConstant l \<Rightarrow>
             (case alloc (ObjNullConstant default_loc) \<sigma> of
                (res, \<sigma>1) \<Rightarrow> Some (res, setSrcLoc_at res l \<sigma>1))
         | ObjIntrinsicFunctor l f as \<Rightarrow>
             (case clone_args lc k as [] \<sigma> of
                None \<Rightarrow> None
              | Some (argsCopy, \<sigma>1) \<Rightarrow>
                  (case alloc (ObjIntrinsicFunctor default_loc f argsCopy) \<sigma>1 of
                     (res, \<sigma>2) \<Rightarrow> Some (res, setSrcLoc_at res l \<sigma>2)))
         | ObjUserDefinedFunctor l n as \<Rightarrow>
             (case alloc (ObjUserDefinedFunctor default_loc [] []) \<sigma> of
                (res, \<sigma>1) \<Rightarrow>
                  (case clone_push lc k res as \<sigma>1 of
                     None \<Rightarrow> None
                   | Some \<sigma>2 \<Rightarrow> Some (res, setName_at res n (setSrcLoc_at res l \<sigma>2))))
         | ObjRecordInit l as \<Rightarrow>
             (case alloc (ObjRecordInit default_loc []) \<sigma> of
                (res, \<sigma>1) \<Rightarrow>
                  (case clone_push lc k res as \<sigma>1 of
                     None \<Rightarrow> None
                   | Some \<sigma>2 \<Rightarrow> Some (res, setSrcLoc_at res l \<sigma>2)))
         | ObjTypeCast l v t \<Rightarrow>
             (case clone_at lc k v \<sigma> of
                None \<Rightarrow> None
              | Some (v', \<sigma>1) \<Rightarrow>
                  (case alloc (ObjTypeCast default_loc v' t) \<sigma>1 of
                     (res, \<sigma>2) \<Rightarrow> Some (res, setSrcLoc_at res l \<sigma>2)))
         | ObjAggregator l f e b \<Rightarrow>
             (case e of
                None \<Rightarrow> Some (AstAggregator_clone_at lc l f None b \<sigma>)
              | Some x \<Rightarrow>
                  (case clone_at lc k x \<sigma> of
                     None \<Rightarrow> None
                   | Some (x', \<sigma>1) \<Rightarrow> Some (AstAggregator_clone_at lc l f (Some x') b \<sigma>1)))
         | ObjSubroutineArgument l n \<Rightarrow>
             (case alloc (ObjSubroutineArgument default_loc n) \<sigma> of
                (res, \<sigma>1) \<Rightarrow> Some (res, setSrcLoc_at res l \<sigma>1))))"
| "clone_args lc k [] argsCopy \<sigma> = Some (argsCopy, \<sigma>)"
| "clone_args lc k (arg # rest) argsCopy \<sigma> =
     (case clone_at lc k arg \<sigma> of
        None \<Rightarrow> None
      | Some (c, \<sigma>') \<Rightarrow> clone_args lc k rest (argsCopy @ [c]) \<sigma>')"
| "clone_push lc k res [] \<sigma> = Some \<sigma>"
| "clone_push lc k res (cur # rest) \<sigma> =
     (case clone_at lc k cur \<sigma> of
        None \<Rightarrow> None
      | Some (c, \<sigma>') \<Rightarrow> clone_push lc k res rest (update_object res (obj_emplace_back c) \<sigma>'))"

text \<open>
  \<open>tree_in lo hi h a t\<close>: in the objects \<open>h\<close> the object at address \<open>a\<close> and the
  objects it owns, directly or not, are the nodes of the tree \<open>t\<close>, and all of them
  have addresses from \<open>lo\<close> up to, not including, \<open>hi\<close>.
\<close>

fun tree_in :: "nat \<Rightarrow> nat \<Rightarrow> ('op, 'lit) object list \<Rightarrow> addr \<Rightarrow> ('op, 'lit) AstArgument \<Rightarrow> bool" where
  "tree_in lo hi h a (AstVariable l n) =
     (lo \<le> a \<and> a < hi \<and> a < length h \<and> h ! a = ObjVariable l n)"
| "tree_in lo hi h a (AstUnnamedVariable l) =
     (lo \<le> a \<and> a < hi \<and> a < length h \<and> h ! a = ObjUnnamedVariable l)"
| "tree_in lo hi h a (AstCounter l) =
     (lo \<le> a \<and> a < hi \<and> a < length h \<and> h ! a = ObjCounter l)"
| "tree_in lo hi h a (AstStringConstant l st r) =
     (lo \<le> a \<and> a < hi \<and> a < length h \<and> h ! a = ObjStringConstant l st r)"
| "tree_in lo hi h a (AstNumericConstant l k r) =
     (lo \<le> a \<and> a < hi \<and> a < length h \<and> h ! a = ObjNumericConstant l k r)"
| "tree_in lo hi h a (AstNullConstant l) =
     (lo \<le> a \<and> a < hi \<and> a < length h \<and> h ! a = ObjNullConstant l)"
| "tree_in lo hi h a (AstIntrinsicFunctor l f ts) =
     (lo \<le> a \<and> a < hi \<and> a < length h \<and>
      (case h ! a of
         ObjIntrinsicFunctor l' f' as \<Rightarrow> l' = l \<and> f' = f \<and> list_all2 (tree_in lo hi h) as ts
       | _ \<Rightarrow> False))"
| "tree_in lo hi h a (AstUserDefinedFunctor l n ts) =
     (lo \<le> a \<and> a < hi \<and> a < length h \<and>
      (case h ! a of
         ObjUserDefinedFunctor l' n' as \<Rightarrow> l' = l \<and> n' = n \<and> list_all2 (tree_in lo hi h) as ts
       | _ \<Rightarrow> False))"
| "tree_in lo hi h a (AstRecordInit l ts) =
     (lo \<le> a \<and> a < hi \<and> a < length h \<and>
      (case h ! a of
         ObjRecordInit l' as \<Rightarrow> l' = l \<and> list_all2 (tree_in lo hi h) as ts
       | _ \<Rightarrow> False))"
| "tree_in lo hi h a (AstTypeCast l v t) =
     (lo \<le> a \<and> a < hi \<and> a < length h \<and>
      (case h ! a of
         ObjTypeCast l' p t' \<Rightarrow> l' = l \<and> t' = t \<and> tree_in lo hi h p v
       | _ \<Rightarrow> False))"
| "tree_in lo hi h a (AstAggregator l f e b) =
     (lo \<le> a \<and> a < hi \<and> a < length h \<and>
      (case h ! a of
         ObjAggregator l' f' p b' \<Rightarrow>
           l' = l \<and> f' = f \<and> b' = b \<and>
           (case e of
              None \<Rightarrow> p = None
            | Some x \<Rightarrow> (case p of None \<Rightarrow> False | Some q \<Rightarrow> tree_in lo hi h q x))
       | _ \<Rightarrow> False))"
| "tree_in lo hi h a (AstSubroutineArgument l n) =
     (lo \<le> a \<and> a < hi \<and> a < length h \<and> h ! a = ObjSubroutineArgument l n)"

definition tree_at :: "('op, 'lit) store \<Rightarrow> addr \<Rightarrow> ('op, 'lit) AstArgument \<Rightarrow> bool" where
  "tree_at \<sigma> a t = tree_in 0 (length (objects \<sigma>)) (objects \<sigma>) a t"

section \<open>Properties\<close>

lemma foldl_push_back: "foldl (\<lambda>acc cur. acc @ [cur]) acc xs = acc @ xs"
  by (induction xs arbitrary: acc) simp_all


subsection \<open>Argument access of a functor\<close>

lemma isFunctor_cases:
  assumes "isFunctor f"
  obtains (Intrinsic) l op as where "f = AstIntrinsicFunctor l op as"
    | (UserDefined) l n as where "f = AstUserDefinedFunctor l n as"
  using assms by (cases f) (simp_all add: isFunctor_def)

lemma functor_args_update_args:
  "isFunctor f \<Longrightarrow> functor_args (functor_args_update as' f) = as'"
  by (erule isFunctor_cases) simp_all

lemma functor_args_update_head:
  "isFunctor f \<Longrightarrow>
     typeid (functor_args_update as' f) = typeid f \<and>
     getSrcLoc (functor_args_update as' f) = getSrcLoc f"
  by (erule isFunctor_cases) simp_all

text \<open>
  C8. For a functor \<open>f\<close> (intrinsic or user-defined) and an index \<open>idx\<close>: when
  \<open>idx < getArity f\<close>, \<open>getArg f idx\<close> returns the argument at position \<open>idx\<close>
  and \<open>setArg f idx a\<close> returns the functor in which exactly that slot holds \<open>a\<close>
  (same class, same location, same arity, every other slot as before); when
  \<open>idx \<ge> getArity f\<close> both stop with the assertion failure and return no node.
\<close>

theorem getArg_setArg_contract:
  assumes "isFunctor f"
  shows "if idx < getArity f
         then getArg f idx = Inr (functor_args f ! idx) \<and>
              (\<exists>f'. setArg f idx a = Inr f' \<and>
                    f' = functor_args_update ((functor_args f)[idx := a]) f \<and>
                    typeid f' = typeid f \<and> getSrcLoc f' = getSrcLoc f \<and>
                    getArity f' = getArity f \<and> getArg f' idx = Inr a \<and>
                    (\<forall>j. j \<noteq> idx \<longrightarrow> getArg f' j = getArg f j))
         else getArg f idx = Inl AssertionFailure \<and> setArg f idx a = Inl AssertionFailure"
proof (cases "idx < getArity f")
  case True
  let ?f' = "functor_args_update ((functor_args f)[idx := a]) f"
  have args: "functor_args ?f' = (functor_args f)[idx := a]"
    using assms by (rule functor_args_update_args)
  have head: "typeid ?f' = typeid f \<and> getSrcLoc ?f' = getSrcLoc f"
    using assms by (rule functor_args_update_head)
  have other: "getArg ?f' j = getArg f j" if "j \<noteq> idx" for j
    using that by (simp add: getArg_def args)
  from True args head other show ?thesis
    by (simp add: getArg_def setArg_def getArity_def)
next
  case False
  then show ?thesis
    by (simp add: getArg_def setArg_def getArity_def)
qed

theorem getArg_setArg_contract_witness:
  "isFunctor (AstUserDefinedFunctor default_loc ''f''
       [AstCounter default_loc, AstVariable default_loc ''x''] :: (nat, unit) AstArgument) \<and>
   getArg (AstUserDefinedFunctor default_loc ''f''
       [AstCounter default_loc, AstVariable default_loc ''x''] :: (nat, unit) AstArgument) 1
     = Inr (AstVariable default_loc ''x'') \<and>
   setArg (AstUserDefinedFunctor default_loc ''f''
       [AstCounter default_loc, AstVariable default_loc ''x''] :: (nat, unit) AstArgument) 1
       (AstUnnamedVariable default_loc)
     = Inr (AstUserDefinedFunctor default_loc ''f''
         [AstCounter default_loc, AstUnnamedVariable default_loc]) \<and>
   getArg (AstUserDefinedFunctor default_loc ''f''
       [AstCounter default_loc, AstVariable default_loc ''x''] :: (nat, unit) AstArgument) 2
     = Inl AssertionFailure \<and>
   setArg (AstUserDefinedFunctor default_loc ''f''
       [AstCounter default_loc, AstVariable default_loc ''x''] :: (nat, unit) AstArgument) 2
       (AstUnnamedVariable default_loc)
     = Inl AssertionFailure"
proof -
  let ?f = "AstUserDefinedFunctor default_loc ''f''
       [AstCounter default_loc, AstVariable default_loc ''x''] :: (nat, unit) AstArgument"
  have f: "isFunctor ?f"
    by (simp add: isFunctor_def)
  have ar: "getArity ?f = 2"
    by (simp add: getArity_def)
  show ?thesis
    using f getArg_setArg_contract [OF f, of 1 "AstUnnamedVariable default_loc"]
      getArg_setArg_contract [OF f, of 2 "AstUnnamedVariable default_loc"]
    by (simp add: ar)
qed

subsection \<open>Construction and change of an intrinsic functor\<close>

text \<open>
  C1. The variadic constructor fails with the assertion when the number of operands is
  not valid for the operator and succeeds otherwise. The constructor that takes a vector
  succeeds whatever the number of operands is; the registry is not consulted. With a
  registry that declares two operands for every operator, one operand is refused by the
  first constructor and accepted by the second.
\<close>

theorem intrinsic_functor_constructors:
  "new_AstIntrinsicFunctor_variadic valid f operands =
     (if valid f (length operands) then Inr (AstIntrinsicFunctor default_loc f operands)
      else Inl AssertionFailure) \<and>
   new_AstIntrinsicFunctor_vector f operands = AstIntrinsicFunctor default_loc f operands \<and>
   new_AstIntrinsicFunctor_variadic (\<lambda>op n. n = 2) f [a] = Inl AssertionFailure \<and>
   new_AstIntrinsicFunctor_vector f [a] = AstIntrinsicFunctor default_loc f [a] \<and>
   getArity (new_AstIntrinsicFunctor_vector f [a]) = 1"
  by (simp add: new_AstIntrinsicFunctor_variadic_def new_AstIntrinsicFunctor_vector_def
      foldl_push_back getArity_def)

lemma intrinsic_functor_cases:
  assumes "typeid x = T_AstIntrinsicFunctor"
  obtains l f as where "x = AstIntrinsicFunctor l f as"
  using assms by (cases x) simp_all

text \<open>
  C9. For every intrinsic functor \<open>x\<close>, whatever its location, its operator and its
  arguments are and whichever constructor or \<open>clone\<close> has built it, \<open>setFunction g x\<close>
  is the functor with the location and the arguments of \<open>x\<close> and the operator \<open>g\<close>:
  the arguments, the arity, the children, the class and the location are those of \<open>x\<close>,
  and the call cannot fail. The registry is not a parameter of \<open>setFunction\<close>: the
  arity is valid for the new operator exactly when the registry says so for the old
  number of arguments, also for a functor that the variadic constructor has checked
  and accepted.
\<close>

theorem setFunction_frame:
  assumes "typeid x = T_AstIntrinsicFunctor"
  shows "setFunction g x = AstIntrinsicFunctor (getSrcLoc x) g (functor_args x) \<and>
         getFunction (setFunction g x) = g \<and>
         functor_args (setFunction g x) = functor_args x \<and>
         getArity (setFunction g x) = getArity x \<and>
         getChildNodes (setFunction g x) = getChildNodes x \<and>
         getSrcLoc (setFunction g x) = getSrcLoc x \<and>
         typeid (setFunction g x) = typeid x \<and>
         valid g (getArity (setFunction g x)) = valid g (getArity x) \<and>
         (new_AstIntrinsicFunctor_variadic valid f operands = Inr x \<longrightarrow>
            valid f (getArity x) \<and>
            setFunction g x = AstIntrinsicFunctor default_loc g operands \<and>
            valid g (getArity (setFunction g x)) = valid g (length operands))"
proof -
  from assms obtain l f0 as where x: "x = AstIntrinsicFunctor l f0 as"
    by (rule intrinsic_functor_cases)
  have v: "valid f (length operands) \<and> l = default_loc \<and> f0 = f \<and> as = operands"
    if "new_AstIntrinsicFunctor_variadic valid f operands = Inr x"
    using that
    by (auto simp: x new_AstIntrinsicFunctor_variadic_def foldl_push_back split: if_splits)
  show ?thesis
    using v by (auto simp: x getArity_def)
qed

theorem setFunction_frame_witness:
  "typeid (AstIntrinsicFunctor (SrcLocation ''rules.dl'' 3 1 3 9) False
             [AstCounter (SrcLocation ''rules.dl'' 3 5 3 6)] :: (bool, unit) AstArgument)
     = T_AstIntrinsicFunctor \<and>
   setFunction True (AstIntrinsicFunctor (SrcLocation ''rules.dl'' 3 1 3 9) False
             [AstCounter (SrcLocation ''rules.dl'' 3 5 3 6)] :: (bool, unit) AstArgument)
     = AstIntrinsicFunctor (SrcLocation ''rules.dl'' 3 1 3 9) True
             [AstCounter (SrcLocation ''rules.dl'' 3 5 3 6)] \<and>
   getSrcLoc (setFunction True (AstIntrinsicFunctor (SrcLocation ''rules.dl'' 3 1 3 9) False
             [AstCounter (SrcLocation ''rules.dl'' 3 5 3 6)] :: (bool, unit) AstArgument))
     = SrcLocation ''rules.dl'' 3 1 3 9 \<and>
   new_AstIntrinsicFunctor_variadic (\<lambda>op n. if op then n = 2 else n = 1) False
       [AstCounter default_loc]
     = Inr (AstIntrinsicFunctor default_loc False [AstCounter default_loc :: (bool, unit) AstArgument]) \<and>
   setFunction True (AstIntrinsicFunctor default_loc False [AstCounter default_loc :: (bool, unit) AstArgument])
     = AstIntrinsicFunctor default_loc True [AstCounter default_loc] \<and>
   \<not> (\<lambda>op n. if op then n = 2 else n = 1) True
       (getArity (setFunction True
          (AstIntrinsicFunctor default_loc False [AstCounter default_loc :: (bool, unit) AstArgument])))"
proof -
  let ?valid = "\<lambda>op n. if op then n = (2::nat) else n = 1"
  let ?y = "AstIntrinsicFunctor (SrcLocation ''rules.dl'' 3 1 3 9) False
             [AstCounter (SrcLocation ''rules.dl'' 3 5 3 6)] :: (bool, unit) AstArgument"
  let ?x = "AstIntrinsicFunctor default_loc False [AstCounter default_loc :: (bool, unit) AstArgument]"
  have ty: "typeid ?y = T_AstIntrinsicFunctor"
    by simp
  have tx: "typeid ?x = T_AstIntrinsicFunctor"
    by simp
  have c: "new_AstIntrinsicFunctor_variadic ?valid False [AstCounter default_loc] = Inr ?x"
    by (simp add: new_AstIntrinsicFunctor_variadic_def)
  note Y = setFunction_frame [OF ty, of True]
  note X = setFunction_frame [OF tx, of True ?valid False "[AstCounter default_loc]"]
  have 1: "setFunction True ?y = AstIntrinsicFunctor (SrcLocation ''rules.dl'' 3 1 3 9) True
             [AstCounter (SrcLocation ''rules.dl'' 3 5 3 6)]"
    using Y [THEN conjunct1] by simp
  have 2: "getSrcLoc (setFunction True ?y) = SrcLocation ''rules.dl'' 3 1 3 9"
    using Y by simp
  have 3: "setFunction True ?x = AstIntrinsicFunctor default_loc True [AstCounter default_loc]"
    using X c by blast
  have "?valid True (getArity (setFunction True ?x)) = ?valid True (length [AstCounter default_loc :: (bool, unit) AstArgument])"
    using X c by blast
  then have 4: "\<not> ?valid True (getArity (setFunction True ?x))"
    by simp
  show ?thesis
    by (intro conjI) (rule ty 1 2 c 3 4)+
qed

subsection \<open>Equality of nodes\<close>

declare node_eq.simps [simp del]

lemma node_eq_same_type [simp]: "typeid x = typeid y \<Longrightarrow> node_eq le x y = equal_node le x y"
  by (simp add: node_eq.simps)

lemma node_eq_other_type [simp]: "typeid x \<noteq> typeid y \<Longrightarrow> node_eq le x y = Inr False"
  by (simp add: node_eq.simps)

lemma std_equal_list_all2:
  "(\<And>a b. a \<in> set as \<Longrightarrow> node_eq le a b = Inr (R a b)) \<Longrightarrow> length as = length bs \<Longrightarrow>
     std_equal le as bs = Inr (list_all2 R as bs)"
proof (induction as arbitrary: bs)
  case Nil
  then show ?case by simp
next
  case (Cons a as)
  then obtain b bs' where bs: "bs = b # bs'"
    by (cases bs) auto
  have a: "node_eq le a b = Inr (R a b)"
    using Cons.prems(1) by simp
  have rest: "std_equal le as bs' = Inr (list_all2 R as bs')"
    using Cons.IH [of bs'] Cons.prems bs by simp
  show ?case
    by (cases "R a b") (simp_all add: bs a rest)
qed

lemma equal_targets_list_all2:
  assumes "\<And>a b. a \<in> set as \<Longrightarrow> node_eq le a b = Inr (R a b)"
  shows "equal_targets le as bs = Inr (list_all2 R as bs)"
proof (cases "length as = length bs")
  case True
  then show ?thesis
    using std_equal_list_all2 [of as le R bs] assms by simp
next
  case False
  then show ?thesis
    by (auto dest: list_all2_lengthD)
qed

lemma lit_equal_targets_list_all2: "lit_equal_targets le a b = list_all2 le a b"
  by (auto simp: lit_equal_targets_def dest: list_all2_lengthD)

lemma node_eq_structurally_equal: "node_eq le x y = Inr (structurally_equal le x y)"
proof (induction x arbitrary: y)
  case (AstIntrinsicFunctor l f as)
  have "equal_targets le as bs = Inr (list_all2 (structurally_equal le) as bs)" for bs
    using AstIntrinsicFunctor.IH by (rule equal_targets_list_all2)
  then show ?case
    by (cases y) (simp_all del: equal_targets.simps)
next
  case (AstUserDefinedFunctor l n as)
  have "equal_targets le as bs = Inr (list_all2 (structurally_equal le) as bs)" for bs
    using AstUserDefinedFunctor.IH by (rule equal_targets_list_all2)
  then show ?case
    by (cases y) (simp_all del: equal_targets.simps)
next
  case (AstRecordInit l as)
  have "equal_targets le as bs = Inr (list_all2 (structurally_equal le) as bs)" for bs
    using AstRecordInit.IH by (rule equal_targets_list_all2)
  then show ?case
    by (cases y) (simp_all del: equal_targets.simps)
next
  case (AstTypeCast l v t)
  then show ?case
    by (cases y) simp_all
next
  case (AstAggregator l f e b)
  show ?case
  proof (cases y)
    case y: (AstAggregator l' f' e' b')
    show ?thesis
    proof (cases e)
      case None
      then show ?thesis
        by (cases e') (simp_all add: y lit_equal_targets_list_all2)
    next
      case e: (Some a)
      show ?thesis
      proof (cases e')
        case None
        then show ?thesis
          by (simp add: y e)
      next
        case (Some a')
        have "node_eq le a a' = Inr (structurally_equal le a a')"
          using AstAggregator.IH [of a a'] e by simp
        then show ?thesis
          by (cases "structurally_equal le a a'") (simp_all add: y e Some lit_equal_targets_list_all2)
      qed
    qed
  qed simp_all
next
  case (AstVariable l n)
  show ?case by (cases y) simp_all
next
  case (AstUnnamedVariable l)
  show ?case by (cases y) simp_all
next
  case (AstCounter l)
  show ?case by (cases y) simp_all
next
  case (AstStringConstant l st r)
  show ?case by (cases y) (simp_all add: AstConstant_equal_def)
next
  case (AstNumericConstant l k r)
  show ?case by (cases y) (simp_all add: node_eq.simps AstConstant_equal_def)
next
  case (AstNullConstant l)
  show ?case by (cases y) (simp_all add: AstConstant_equal_def)
next
  case (AstSubroutineArgument l n)
  show ?case by (cases y) simp_all
qed


lemma list_all2_refl_on: "(\<And>a. a \<in> set as \<Longrightarrow> R a a) \<Longrightarrow> list_all2 R as as"
  by (induction as) simp_all

lemma list_all2_sym_on:
  "(\<And>a b. a \<in> set as \<Longrightarrow> R a b = R b a) \<Longrightarrow> list_all2 R as bs = list_all2 R bs as"
proof (induction as arbitrary: bs)
  case Nil
  then show ?case by (cases bs) simp_all
next
  case (Cons a as)
  show ?case
  proof (cases bs)
    case Nil
    then show ?thesis by simp
  next
    case bs: (Cons b bs')
    have 1: "R a b = R b a"
      by (rule Cons.prems) simp
    have 2: "list_all2 R as bs' = list_all2 R bs' as"
      by (rule Cons.IH) (rule Cons.prems, simp)
    show ?thesis
      by (simp add: bs 1 2)
  qed
qed

lemma list_all2_map_on:
  "(\<And>a b. a \<in> set as \<Longrightarrow> R (p a) (q b) = R a b) \<Longrightarrow>
     list_all2 R (map p as) (map q bs) = list_all2 R as bs"
proof (induction as arbitrary: bs)
  case Nil
  then show ?case by (cases bs) simp_all
next
  case (Cons a as)
  show ?case
  proof (cases bs)
    case Nil
    then show ?thesis by simp
  next
    case bs: (Cons b bs')
    have 1: "R (p a) (q b) = R a b"
      by (rule Cons.prems) simp
    have 2: "list_all2 R (map p as) (map q bs') = list_all2 R as bs'"
      by (rule Cons.IH) (rule Cons.prems, simp)
    show ?thesis
      by (simp add: bs 1 2)
  qed
qed

lemma structurally_equal_refl:
  assumes "\<And>a. le a a"
  shows "structurally_equal le x x"
proof (induction x)
  case (AstAggregator l f e b)
  have "list_all2 le b b"
    using assms by (simp add: list_all2_refl_on)
  with AstAggregator show ?case
    by (cases e) simp_all
qed (simp_all add: list_all2_refl_on)

lemma structurally_equal_sym:
  assumes "\<And>a b. le a b = le b a"
  shows "structurally_equal le x y = structurally_equal le y x"
proof (induction x arbitrary: y)
  case (AstIntrinsicFunctor l f as)
  have "list_all2 (structurally_equal le) as bs = list_all2 (structurally_equal le) bs as" for bs
    using AstIntrinsicFunctor.IH by (rule list_all2_sym_on)
  then show ?case by (cases y) auto
next
  case (AstUserDefinedFunctor l n as)
  have "list_all2 (structurally_equal le) as bs = list_all2 (structurally_equal le) bs as" for bs
    using AstUserDefinedFunctor.IH by (rule list_all2_sym_on)
  then show ?case by (cases y) auto
next
  case (AstRecordInit l as)
  have "list_all2 (structurally_equal le) as bs = list_all2 (structurally_equal le) bs as" for bs
    using AstRecordInit.IH by (rule list_all2_sym_on)
  then show ?case by (cases y) auto
next
  case (AstTypeCast l v t)
  then show ?case by (cases y) auto
next
  case (AstAggregator l f e b)
  have lits: "list_all2 le b b' = list_all2 le b' b" for b'
    using assms by (rule list_all2_sym_on)
  show ?case
  proof (cases y)
    case y: (AstAggregator l' f' e' b')
    show ?thesis
      using AstAggregator.IH lits by (cases e; cases e') (auto simp: y)
  qed simp_all
next
  case (AstVariable l n)
  show ?case by (cases y) auto
next
  case (AstUnnamedVariable l)
  show ?case by (cases y) auto
next
  case (AstCounter l)
  show ?case by (cases y) auto
next
  case (AstStringConstant l st r)
  show ?case by (cases y) auto
next
  case (AstNumericConstant l k r)
  show ?case by (cases y) auto
next
  case (AstNullConstant l)
  show ?case by (cases y) auto
next
  case (AstSubroutineArgument l n)
  show ?case by (cases y) auto
qed

lemma typeid_relocate [simp]: "typeid (relocate g x) = typeid x"
  by (cases x) simp_all

lemma structurally_equal_relocate:
  "structurally_equal le (relocate g x) (relocate h y) = structurally_equal le x y"
proof (induction x arbitrary: y)
  case (AstIntrinsicFunctor l f as)
  have "list_all2 (structurally_equal le) (map (relocate g) as) (map (relocate h) bs)
          = list_all2 (structurally_equal le) as bs" for bs
    using AstIntrinsicFunctor.IH by (rule list_all2_map_on)
  then show ?case by (cases y) simp_all
next
  case (AstUserDefinedFunctor l n as)
  have "list_all2 (structurally_equal le) (map (relocate g) as) (map (relocate h) bs)
          = list_all2 (structurally_equal le) as bs" for bs
    using AstUserDefinedFunctor.IH by (rule list_all2_map_on)
  then show ?case by (cases y) simp_all
next
  case (AstRecordInit l as)
  have "list_all2 (structurally_equal le) (map (relocate g) as) (map (relocate h) bs)
          = list_all2 (structurally_equal le) as bs" for bs
    using AstRecordInit.IH by (rule list_all2_map_on)
  then show ?case by (cases y) simp_all
next
  case (AstTypeCast l v t)
  then show ?case by (cases y) simp_all
next
  case (AstAggregator l f e b)
  show ?case
  proof (cases y)
    case y: (AstAggregator l' f' e' b')
    show ?thesis
      using AstAggregator.IH by (cases e; cases e') (simp_all add: y)
  qed simp_all
next
  case (AstVariable l n)
  show ?case by (cases y) simp_all
next
  case (AstUnnamedVariable l)
  show ?case by (cases y) simp_all
next
  case (AstCounter l)
  show ?case by (cases y) simp_all
next
  case (AstStringConstant l st r)
  show ?case by (cases y) simp_all
next
  case (AstNumericConstant l k r)
  show ?case by (cases y) simp_all
next
  case (AstNullConstant l)
  show ?case by (cases y) simp_all
next
  case (AstSubroutineArgument l n)
  show ?case by (cases y) simp_all
qed


lemma structurally_equal_setSrcLoc:
  "structurally_equal le (setSrcLoc loc x) y = structurally_equal le x y"
  by (cases x) simp_all

lemma structurally_equal_typeid: "structurally_equal le x y \<Longrightarrow> typeid x = typeid y"
  by (cases x; cases y) simp_all

text \<open>
  C4. Provided the comparison of literals is reflexive and symmetric: the comparison of
  nodes never fails, is reflexive and symmetric, gives the same answer whatever the
  source locations in the two trees are, and is false for two nodes of different
  classes. For two nodes of the same class it compares the payload and the children:
  two variables are equal iff the names are, two constants of the same class iff the
  words are, two unnamed variables, two counters and two null constants always; two
  functors iff the operators (or names) are equal and the arguments are pairwise, two
  records iff the fields are pairwise, two casts iff the types and the values are, two
  aggregators iff the operators, the targets and the bodies are, and two subroutine
  arguments iff the numbers are.
\<close>

theorem node_eq_properties:
  fixes x y :: "('op, 'lit) AstArgument"
  assumes le_refl: "\<And>a. le a a" and le_sym: "\<And>a b. le a b = le b a"
  shows "node_eq le x x = Inr True \<and>
         node_eq le x y = node_eq le y x \<and>
         (\<exists>r. node_eq le x y = Inr r) \<and>
         node_eq le (relocate g x) (relocate h y) = node_eq le x y \<and>
         node_eq le (setSrcLoc loc x) y = node_eq le x y \<and>
         (typeid x \<noteq> typeid y \<longrightarrow> node_eq le x y = Inr False) \<and>
         node_eq le (AstVariable l n :: ('op, 'lit) AstArgument) (AstVariable l' n') = Inr (n = n') \<and>
         node_eq le (AstUnnamedVariable l :: ('op, 'lit) AstArgument) (AstUnnamedVariable l') = Inr True \<and>
         node_eq le (AstCounter l :: ('op, 'lit) AstArgument) (AstCounter l') = Inr True \<and>
         node_eq le (AstStringConstant l st r :: ('op, 'lit) AstArgument) (AstStringConstant l' st' r')
           = Inr (r = r') \<and>
         node_eq le (AstNumericConstant l k r :: ('op, 'lit) AstArgument) (AstNumericConstant l' k r')
           = Inr (r = r') \<and>
         node_eq le (AstNullConstant l :: ('op, 'lit) AstArgument) (AstNullConstant l') = Inr True \<and>
         node_eq le (AstIntrinsicFunctor l f as) (AstIntrinsicFunctor l' f' as')
           = Inr (f = f' \<and> list_all2 (\<lambda>a b. node_eq le a b = Inr True) as as') \<and>
         node_eq le (AstUserDefinedFunctor l n as) (AstUserDefinedFunctor l' n' as')
           = Inr (n = n' \<and> list_all2 (\<lambda>a b. node_eq le a b = Inr True) as as') \<and>
         node_eq le (AstRecordInit l as) (AstRecordInit l' as')
           = Inr (list_all2 (\<lambda>a b. node_eq le a b = Inr True) as as') \<and>
         node_eq le (AstTypeCast l v t) (AstTypeCast l' v' t')
           = Inr (t = t' \<and> node_eq le v v' = Inr True) \<and>
         node_eq le (AstAggregator l agg e b) (AstAggregator l' agg' e' b')
           = Inr (agg = agg' \<and> rel_option (\<lambda>a b. node_eq le a b = Inr True) e e' \<and> list_all2 le b b') \<and>
         node_eq le (AstSubroutineArgument l i :: ('op, 'lit) AstArgument) (AstSubroutineArgument l' i')
           = Inr (i = i')"
proof -
  have R: "(\<lambda>a b. node_eq le a b = Inr True) = structurally_equal le"
    by (simp add: node_eq_structurally_equal fun_eq_iff)
  have agg: "rel_option (structurally_equal le) e e'
      = (case (e, e') of (None, None) \<Rightarrow> True | (Some a, Some a') \<Rightarrow> structurally_equal le a a'
         | _ \<Rightarrow> False)"
    by (cases e; cases e') simp_all
  have other: "typeid x \<noteq> typeid y \<longrightarrow> \<not> structurally_equal le x y"
    using structurally_equal_typeid [of le x y] by blast
  show ?thesis
    unfolding R unfolding node_eq_structurally_equal
    using le_refl le_sym other
    by (simp add: structurally_equal_refl structurally_equal_sym [of le x y]
        structurally_equal_relocate structurally_equal_setSrcLoc agg)
qed

theorem node_eq_properties_witness:
  "(\<forall>a::nat. a = a) \<and> (\<forall>a b::nat. (a = b) = (b = a)) \<and>
   node_eq (=) (AstAggregator default_loc Op_sum (Some (AstVariable default_loc ''x'')) [1::nat]
                  :: (nat, nat) AstArgument)
               (AstAggregator default_loc Op_sum (Some (AstVariable default_loc ''x'')) [1]) = Inr True \<and>
   node_eq (=) (AstAggregator default_loc Op_sum (Some (AstVariable default_loc ''x'')) [1::nat]
                  :: (nat, nat) AstArgument)
               (AstVariable default_loc ''x'')
     = node_eq (=) (AstVariable default_loc ''x'' :: (nat, nat) AstArgument)
               (AstAggregator default_loc Op_sum (Some (AstVariable default_loc ''x'')) [1::nat]) \<and>
   node_eq (=) (AstAggregator default_loc Op_sum (Some (AstVariable default_loc ''x'')) [1::nat]
                  :: (nat, nat) AstArgument)
               (AstVariable default_loc ''x'') = Inr False"
proof -
  let ?x = "AstAggregator default_loc Op_sum (Some (AstVariable default_loc ''x'')) [1::nat]
              :: (nat, nat) AstArgument"
  let ?y = "AstVariable default_loc ''x'' :: (nat, nat) AstArgument"
  have r: "\<And>a::nat. a = a" and s: "\<And>a b::nat. (a = b) = (b = a)"
    by auto
  have t: "typeid ?x \<noteq> typeid ?y"
    by simp
  note P = node_eq_properties [of "(=)" ?x ?y, OF r s]
  have 1: "node_eq (=) ?x ?x = Inr True"
    by (rule P [THEN conjunct1])
  have 2: "node_eq (=) ?x ?y = node_eq (=) ?y ?x"
    by (rule P [THEN conjunct2, THEN conjunct1])
  have 3: "node_eq (=) ?x ?y = Inr False"
    by (rule P [THEN conjunct2, THEN conjunct2, THEN conjunct2, THEN conjunct2, THEN conjunct2,
          THEN conjunct1, THEN mp, OF t])
  have 4: "\<forall>a::nat. a = a"
    by simp
  have 5: "\<forall>a b::nat. (a = b) = (b = a)"
    by auto
  show ?thesis
    by (intro conjI) (rule 1 2 3 4 5)+
qed

subsection \<open>Child enumeration\<close>

lemma foldl_push_nodes:
  "foldl (\<lambda>res cur. res @ [ArgumentNode cur]) acc as = acc @ map ArgumentNode as"
  by (induction as arbitrary: acc) simp_all

lemma foldl_add_record:
  "foldl (\<lambda>r a. add a r) (AstRecordInit l0 as0) as = AstRecordInit l0 (as0 @ as)"
  by (induction as arbitrary: as0) simp_all

lemma foldl_add_functor:
  "foldl (\<lambda>r a. add a r) (AstUserDefinedFunctor l0 n0 as0) as = AstUserDefinedFunctor l0 n0 (as0 @ as)"
  by (induction as arbitrary: as0) simp_all

lemma foldl_addBodyLiteral:
  "foldl (\<lambda>r lit. addBodyLiteral lit r) (AstAggregator l0 f0 e0 b0) b = AstAggregator l0 f0 e0 (b0 @ b)"
  by (induction b arbitrary: b0) simp_all

text \<open>
  C5. \<open>getChildNodes\<close> of a record, of an intrinsic functor and of a user-defined
  functor is the list of the arguments in their order and nothing else; of an
  aggregator it is the target expression, when set, followed by the body literals.
  \<open>add\<close> and \<open>addBodyLiteral\<close> append at the end, so a node built by successive
  calls enumerates its children in insertion order. A \<open>sum\<close> aggregator has no
  children when constructed, the children \<open>[x]\<close> once the target \<open>x\<close> is set and
  \<open>[x, lit]\<close> after one body literal is appended.
\<close>

theorem getChildNodes_order:
  "getChildNodes (AstRecordInit l as) = map ArgumentNode as \<and>
   getChildNodes (AstIntrinsicFunctor l f as) = map ArgumentNode as \<and>
   getChildNodes (AstUserDefinedFunctor l n as) = map ArgumentNode as \<and>
   getChildNodes (AstAggregator l agg e b)
     = (case e of None \<Rightarrow> [] | Some x \<Rightarrow> [ArgumentNode x]) @ map LiteralNode b \<and>
   getChildNodes (add a (AstRecordInit l as)) = getChildNodes (AstRecordInit l as) @ [ArgumentNode a] \<and>
   getChildNodes (add a (AstUserDefinedFunctor l n as))
     = getChildNodes (AstUserDefinedFunctor l n as) @ [ArgumentNode a] \<and>
   getChildNodes (foldl (\<lambda>r a. add a r) new_AstRecordInit as) = map ArgumentNode as \<and>
   getChildNodes (foldl (\<lambda>r a. add a r) new_AstUserDefinedFunctor as) = map ArgumentNode as \<and>
   getChildNodes (new_AstIntrinsicFunctor_vector f as) = map ArgumentNode as \<and>
   getChildNodes (addBodyLiteral lit (AstAggregator l agg e b))
     = getChildNodes (AstAggregator l agg e b) @ [LiteralNode lit] \<and>
   getChildNodes (setTargetExpression x (AstAggregator l agg e b)) = ArgumentNode x # map LiteralNode b \<and>
   getChildNodes (foldl (\<lambda>r lit. addBodyLiteral lit r) (setTargetExpression x (new_AstAggregator agg)) b)
     = ArgumentNode x # map LiteralNode b \<and>
   getChildNodes (new_AstAggregator Op_sum :: ('op, 'lit) AstArgument) = [] \<and>
   getChildNodes (setTargetExpression x (new_AstAggregator Op_sum)) = [ArgumentNode x] \<and>
   getChildNodes (addBodyLiteral lit (setTargetExpression x (new_AstAggregator Op_sum)))
     = [ArgumentNode x, LiteralNode lit]"
  by (simp add: foldl_push_nodes foldl_add_record foldl_add_functor foldl_addBodyLiteral
      new_AstRecordInit_def new_AstUserDefinedFunctor_def new_AstIntrinsicFunctor_vector_def
      new_AstAggregator_def AstAggregator_getChildNodes_def)

subsection \<open>Rewriting the children\<close>

lemma apply_each_append:
  "apply_each m (xs @ ys) s =
     (case apply_each m xs s of (xs', s') \<Rightarrow>
        (case apply_each m ys s' of (ys', s'') \<Rightarrow> (xs' @ ys', s'')))"
  by (induction xs arbitrary: s) (simp_all split: prod.splits)

lemma apply_each_ArgumentNode:
  "apply_each (node_mapper ma ml) (map ArgumentNode as) s =
     (case apply_each ma as s of (as', s') \<Rightarrow> (map ArgumentNode as', s'))"
  by (induction as arbitrary: s) (simp_all add: node_mapper_def split: prod.splits)

lemma apply_each_LiteralNode:
  "apply_each (node_mapper ma ml) (map LiteralNode b) s =
     (case apply_each ml b s of (b', s') \<Rightarrow> (map LiteralNode b', s'))"
  by (induction b arbitrary: s) (simp_all add: node_mapper_def split: prod.splits)

lemma apply_node_children:
  "apply_node ma ml x s = (x', s') \<Longrightarrow>
     (getChildNodes x', s') = apply_each (node_mapper ma ml) (getChildNodes x) s \<and>
     typeid x' = typeid x \<and> getSrcLoc x' = getSrcLoc x"
proof (cases x)
  case (AstAggregator l f e b)
  assume "apply_node ma ml x s = (x', s')"
  then show ?thesis
    by (cases e)
      (auto simp: AstAggregator apply_each_append apply_each_LiteralNode node_mapper_def
        AstAggregator_getChildNodes_def split: prod.splits)
next
  case (AstTypeCast l v t)
  assume "apply_node ma ml x s = (x', s')"
  then show ?thesis
    by (auto simp: AstTypeCast node_mapper_def split: prod.splits)
qed (auto simp: foldl_push_nodes apply_each_ArgumentNode split: prod.splits)

lemma apply_each_id: "apply_each (\<lambda>a s. (a, s)) xs s = (xs, s)"
  by (induction xs) simp_all

lemma apply_node_id: "apply_node (\<lambda>a s. (a, s)) (\<lambda>lit s. (lit, s)) x s = (x, s)"
proof (cases x)
  case (AstAggregator l f e b)
  then show ?thesis
    by (cases e) (simp_all add: apply_each_id)
qed (simp_all add: apply_each_id)

lemma apply_each_log:
  "apply_each (\<lambda>a log. (g a, log @ [a])) xs log = (map g xs, log @ xs)"
  by (induction xs arbitrary: log) simp_all


lemma node_mapper_log:
  "node_mapper (\<lambda>a log. (fa a, log @ [ArgumentNode a])) (\<lambda>lit log. (fl lit, log @ [LiteralNode lit]))
     = (\<lambda>node log. (case_AstNode (\<lambda>a. ArgumentNode (fa a)) (\<lambda>lit. LiteralNode (fl lit)) node,
                      log @ [node]))"
  by (auto simp: node_mapper_def fun_eq_iff split: AstNode.splits)

text \<open>
  C6. \<open>apply\<close> with a mapper \<open>(ma, ml)\<close> that carries a state: the children of the
  node afterwards and the final state are those of one pass over the child enumeration
  of the node, the mapper called on each child once in that order and each result put
  in the place of its child; the class and the location of the node stay. With a mapper
  that records its calls, the record is exactly the child enumeration. On a variable,
  an unnamed variable, a counter, a constant or a subroutine argument the mapper is not
  called: node and state come back as they were. With the mapper that returns every
  child unchanged the node comes back unchanged, hence equal to the node before.
\<close>

theorem apply_node_contract:
  fixes x :: "('op, 'lit) AstArgument"
  shows
  "(case apply_node ma ml x s of (x', s') \<Rightarrow>
      (getChildNodes x', s') = apply_each (node_mapper ma ml) (getChildNodes x) s \<and>
      typeid x' = typeid x \<and> getSrcLoc x' = getSrcLoc x) \<and>
   (case apply_node (\<lambda>a log. (fa a, log @ [ArgumentNode a]))
                    (\<lambda>lit log. (fl lit, log @ [LiteralNode lit])) x [] of
      (x', log) \<Rightarrow>
        log = getChildNodes x \<and>
        getChildNodes x'
          = map (case_AstNode (\<lambda>a. ArgumentNode (fa a)) (\<lambda>lit. LiteralNode (fl lit))) (getChildNodes x)) \<and>
   apply_node ma ml (AstVariable l n) s = (AstVariable l n, s) \<and>
   apply_node ma ml (AstUnnamedVariable l) s = (AstUnnamedVariable l, s) \<and>
   apply_node ma ml (AstCounter l) s = (AstCounter l, s) \<and>
   apply_node ma ml (AstStringConstant l st r) s = (AstStringConstant l st r, s) \<and>
   apply_node ma ml (AstNumericConstant l k r) s = (AstNumericConstant l k r, s) \<and>
   apply_node ma ml (AstNullConstant l) s = (AstNullConstant l, s) \<and>
   apply_node ma ml (AstSubroutineArgument l i) s = (AstSubroutineArgument l i, s) \<and>
   apply_node (\<lambda>a s. (a, s)) (\<lambda>lit s. (lit, s)) x s = (x, s) \<and>
   ((\<forall>a. le a a) \<longrightarrow>
      node_eq le (fst (apply_node (\<lambda>a s. (a, s)) (\<lambda>lit s. (lit, s)) x s)) x = Inr True)"
proof -
  obtain x' s' where 1: "apply_node ma ml x s = (x', s')"
    by (cases "apply_node ma ml x s")
  note a = apply_node_children [OF 1]
  obtain x'' log where 2: "apply_node (\<lambda>a log. (fa a, log @ [ArgumentNode a]))
                    (\<lambda>lit log. (fl lit, log @ [LiteralNode lit])) x [] = (x'', log)"
    by (cases "apply_node (\<lambda>a log. (fa a, log @ [ArgumentNode a]))
                    (\<lambda>lit log. (fl lit, log @ [LiteralNode lit])) x []")
  have b: "log = getChildNodes x \<and>
        getChildNodes x''
          = map (case_AstNode (\<lambda>a. ArgumentNode (fa a)) (\<lambda>lit. LiteralNode (fl lit))) (getChildNodes x)"
    using apply_node_children [OF 2] by (simp add: node_mapper_log apply_each_log)
  have c: "(\<forall>a. le a a) \<longrightarrow>
      node_eq le (fst (apply_node (\<lambda>a s. (a, s)) (\<lambda>lit s. (lit, s)) x s)) x = Inr True"
    by (simp add: apply_node_id node_eq_structurally_equal structurally_equal_refl)
  show ?thesis
    using a b c by (simp add: 1 2 apply_node_id)
qed

theorem apply_node_contract_witness:
  "(\<forall>a::nat. a = a) \<and>
   node_eq (=)
     (fst (apply_node (\<lambda>a s. (a, s)) (\<lambda>lit s. (lit, s))
        (AstAggregator default_loc Op_sum (Some (AstVariable default_loc ''x'')) [7::nat]
           :: (nat, nat) AstArgument) (0::nat)))
     (AstAggregator default_loc Op_sum (Some (AstVariable default_loc ''x'')) [7::nat]) = Inr True \<and>
   apply_node (\<lambda>a log. (AstCounter default_loc, log @ [ArgumentNode a]))
              (\<lambda>lit log. (Suc lit, log @ [LiteralNode lit]))
        (AstAggregator default_loc Op_sum (Some (AstVariable default_loc ''x'')) [7::nat]
           :: (nat, nat) AstArgument) []
     = (AstAggregator default_loc Op_sum (Some (AstCounter default_loc)) [8],
        [ArgumentNode (AstVariable default_loc ''x''), LiteralNode 7])"
proof -
  let ?x = "AstAggregator default_loc Op_sum (Some (AstVariable default_loc ''x'')) [7::nat]
           :: (nat, nat) AstArgument"
  note P = apply_node_contract [of "\<lambda>a s. (a, s)" "\<lambda>lit s. (lit, s)" ?x "0::nat" _ _ _ _ _ _ _ _ "(=)"]
  have r: "\<forall>a::nat. a = a"
    by simp
  have 1: "node_eq (=) (fst (apply_node (\<lambda>a s. (a, s)) (\<lambda>lit s. (lit, s)) ?x (0::nat))) ?x = Inr True"
    by (rule P [THEN conjunct2, THEN conjunct2, THEN conjunct2, THEN conjunct2, THEN conjunct2,
          THEN conjunct2, THEN conjunct2, THEN conjunct2, THEN conjunct2, THEN conjunct2,
          THEN mp, OF r])
  have 2: "apply_node (\<lambda>a log. (AstCounter default_loc, log @ [ArgumentNode a]))
              (\<lambda>lit log. (Suc lit, log @ [LiteralNode lit])) ?x []
     = (AstAggregator default_loc Op_sum (Some (AstCounter default_loc)) [8],
        [ArgumentNode (AstVariable default_loc ''x''), LiteralNode 7])"
    by simp
  show ?thesis
    by (intro conjI) (rule r 1 2)+
qed

subsection \<open>Cloning a tree\<close>

lemma foldl_clone_args:
  "foldl (\<lambda>argsCopy arg. argsCopy @ [g arg]) acc as = acc @ map g as"
  by (induction as arbitrary: acc) simp_all

lemma foldl_clone_functor:
  "foldl (\<lambda>res cur. add (g cur) res) (AstUserDefinedFunctor l n as0) as
     = AstUserDefinedFunctor l n (as0 @ map g as)"
  by (induction as arbitrary: as0) simp_all

lemma foldl_clone_record:
  "foldl (\<lambda>res cur. add (g cur) res) (AstRecordInit l as0) as = AstRecordInit l (as0 @ map g as)"
  by (induction as arbitrary: as0) simp_all

lemma foldl_clone_body:
  "foldl (\<lambda>res cur. addBodyLiteral (g cur) res) (AstAggregator l f e b0) b
     = AstAggregator l f e (b0 @ map g b)"
  by (induction b arbitrary: b0) simp_all

lemma size_t_roundtrip: "ucast (scast r :: 64 word) = (r :: 32 word)"
  by (rule bit_word_eqI) (auto simp add: bit_simps)

lemma clone_closed_form:
  "clone lc (AstVariable l n) = AstVariable l n"
  "clone lc (AstUnnamedVariable l) = AstUnnamedVariable l"
  "clone lc (AstCounter l) = AstCounter l"
  "clone lc (AstStringConstant l st r) = AstStringConstant l st r"
  "clone lc (AstNumericConstant l k r) = AstNumericConstant l k r"
  "clone lc (AstNullConstant l) = AstNullConstant l"
  "clone lc (AstIntrinsicFunctor l f as) = AstIntrinsicFunctor l f (map (clone lc) as)"
  "clone lc (AstUserDefinedFunctor l n as) = AstUserDefinedFunctor l n (map (clone lc) as)"
  "clone lc (AstRecordInit l as) = AstRecordInit l (map (clone lc) as)"
  "clone lc (AstTypeCast l v t) = AstTypeCast l (clone lc v) t"
  "clone lc (AstAggregator l agg e b) = AstAggregator l agg (map_option (clone lc) e) (map lc b)"
  "clone lc (AstSubroutineArgument l i) = AstSubroutineArgument l i"
  by (simp_all add: new_AstVariable_def new_AstUnnamedVariable_def new_AstCounter_def
      new_AstStringConstant_index_def size_t_roundtrip new_AstNumericConstant_def ramBitCast_def
      new_AstNullConstant_def new_AstIntrinsicFunctor_vector_def foldl_clone_args
      new_AstUserDefinedFunctor_def foldl_clone_functor new_AstRecordInit_def foldl_clone_record
      new_AstTypeCast_def new_AstAggregator_def foldl_clone_body new_AstSubroutineArgument_def
      AstAggregator_clone_def split: option.splits)

lemma typeid_clone: "typeid (clone lc x) = typeid x"
  by (cases x) (simp_all only: clone_closed_form typeid.simps)

lemma getSrcLoc_clone: "getSrcLoc (clone lc x) = getSrcLoc x"
  by (cases x) (simp_all only: clone_closed_form getSrcLoc.simps)

lemma getChildNodes_clone: "getChildNodes (clone lc x) = map (clone_node lc) (getChildNodes x)"
proof (cases x)
  case (AstAggregator l f e b)
  then show ?thesis
    by (cases e)
      (simp_all add: clone_closed_form clone_node_def AstAggregator_getChildNodes_def
        del: clone.simps)
qed (simp_all add: clone_closed_form foldl_push_nodes clone_node_def del: clone.simps)

lemma list_all2_map_right_on:
  "(\<And>a. a \<in> set as \<Longrightarrow> R a (g a)) \<Longrightarrow> list_all2 R as (map g as)"
  by (induction as) simp_all

lemma structurally_equal_clone:
  assumes "\<And>a. le a (lc a)"
  shows "structurally_equal le x (clone lc x)"
proof (induction x)
  case (AstAggregator l f e b)
  have "list_all2 le b (map lc b)"
    using assms by (simp add: list_all2_map_right_on)
  with AstAggregator show ?case
    by (cases e) (simp_all add: clone_closed_form del: clone.simps)
qed (simp_all add: clone_closed_form list_all2_map_right_on del: clone.simps)

subsection \<open>Cloning objects in the store\<close>


lemma tree_in_mono:
  "tree_in lo hi h a t \<Longrightarrow> lo' \<le> lo \<Longrightarrow> hi \<le> hi' \<Longrightarrow> tree_in lo' hi' h a t"
proof (induction t arbitrary: a)
  case (AstIntrinsicFunctor l f ts)
  then show ?case
    by (cases "h ! a") (auto elim!: list.rel_mono_strong)
next
  case (AstUserDefinedFunctor l n ts)
  then show ?case
    by (cases "h ! a") (auto elim!: list.rel_mono_strong)
next
  case (AstRecordInit l ts)
  then show ?case
    by (cases "h ! a") (auto elim!: list.rel_mono_strong)
next
  case (AstTypeCast l v t)
  then show ?case
    by (cases "h ! a") auto
next
  case (AstAggregator l f e b)
  then show ?case
    by (cases "h ! a"; cases e) (auto split: option.splits)
qed auto

lemma tree_in_frame:
  "tree_in lo hi h a t \<Longrightarrow>
     (\<And>i. lo \<le> i \<Longrightarrow> i < hi \<Longrightarrow> i < length h \<Longrightarrow> i < length h' \<and> h' ! i = h ! i) \<Longrightarrow>
     tree_in lo hi h' a t"
proof (induction t arbitrary: a)
  case (AstIntrinsicFunctor l f ts)
  then show ?case
    by (cases "h ! a") (auto elim!: list.rel_mono_strong)
next
  case (AstUserDefinedFunctor l n ts)
  then show ?case
    by (cases "h ! a") (auto elim!: list.rel_mono_strong)
next
  case (AstRecordInit l ts)
  then show ?case
    by (cases "h ! a") (auto elim!: list.rel_mono_strong)
next
  case (AstTypeCast l v t)
  then show ?case
    by (cases "h ! a") auto
next
  case (AstAggregator l f e b)
  then show ?case
    by (cases "h ! a"; cases e) (auto split: option.splits)
qed auto



lemma alloc_setSrcLoc:
  "(case alloc obj \<sigma> of (res, \<sigma>1) \<Rightarrow> Some (res, setSrcLoc_at res l \<sigma>1))
     = Some (length (objects \<sigma>), \<sigma>\<lparr>objects := objects \<sigma> @ [obj_setSrcLoc l obj]\<rparr>)"
  by (simp add: alloc_def setSrcLoc_at_def update_object_def)

lemma tree_in_append:
  "tree_in lo hi h a t \<Longrightarrow> tree_in lo hi (h @ ext) a t"
  by (erule tree_in_frame) (simp add: nth_append)

lemma list_tree_in_append:
  "list_all2 (tree_in lo hi h) as ts \<Longrightarrow> list_all2 (tree_in lo hi (h @ ext)) as ts"
  by (erule list_all2_mono) (rule tree_in_append)

lemma list_tree_in_mono:
  "list_all2 (tree_in lo hi h) as ts \<Longrightarrow> lo' \<le> lo \<Longrightarrow> hi \<le> hi' \<Longrightarrow>
     list_all2 (tree_in lo' hi' h) as ts"
  by (erule list_all2_mono) (rule tree_in_mono)

lemma clone_args_correct:
  assumes IH: "\<And>t a \<sigma>. t \<in> set ts0 \<Longrightarrow> tree_in lo hi (objects \<sigma>) a t \<Longrightarrow> hi \<le> length (objects \<sigma>) \<Longrightarrow>
      \<exists>a' ext. clone_at lc k a \<sigma> = Some (a', \<sigma>\<lparr>objects := objects \<sigma> @ ext\<rparr>) \<and>
        tree_in (length (objects \<sigma>)) (length (objects \<sigma>) + length ext) (objects \<sigma> @ ext) a'
          (clone lc t)"
  shows "list_all2 (tree_in lo hi (objects \<sigma>)) as ts \<Longrightarrow> set ts \<subseteq> set ts0 \<Longrightarrow>
     hi \<le> length (objects \<sigma>) \<Longrightarrow>
     \<exists>cs ext. clone_args lc k as acc \<sigma> = Some (acc @ cs, \<sigma>\<lparr>objects := objects \<sigma> @ ext\<rparr>) \<and>
        list_all2 (tree_in (length (objects \<sigma>)) (length (objects \<sigma>) + length ext)
                     (objects \<sigma> @ ext)) cs (map (clone lc) ts)"
proof (induction as arbitrary: ts acc \<sigma>)
  case Nil
  then show ?case
    by (intro exI [of _ "[]"]) simp
next
  case (Cons a as)
  from Cons.prems(1) obtain t ts' where ts: "ts = t # ts'"
    and a: "tree_in lo hi (objects \<sigma>) a t"
    and as: "list_all2 (tree_in lo hi (objects \<sigma>)) as ts'"
    by (cases ts) auto
  let ?h = "objects \<sigma>"
  from IH [where t = t and a = a and \<sigma> = \<sigma>] a Cons.prems ts
  obtain c e1 where c: "clone_at lc k a \<sigma> = Some (c, \<sigma>\<lparr>objects := ?h @ e1\<rparr>)"
    and ct: "tree_in (length ?h) (length ?h + length e1) (?h @ e1) c (clone lc t)"
    by auto
  let ?s1 = "\<sigma>\<lparr>objects := ?h @ e1\<rparr>"
  have as1: "list_all2 (tree_in lo hi (objects ?s1)) as ts'"
    using as by (simp add: list_tree_in_append)
  from Cons.IH [OF as1, of "acc @ [c]"] Cons.prems ts
  obtain cs e2 where cs: "clone_args lc k as (acc @ [c]) ?s1 = Some ((acc @ [c]) @ cs, ?s1\<lparr>objects := objects ?s1 @ e2\<rparr>)"
    and cst: "list_all2 (tree_in (length (objects ?s1)) (length (objects ?s1) + length e2)
                     (objects ?s1 @ e2)) cs (map (clone lc) ts')"
    by auto
  have 1: "tree_in (length ?h) (length ?h + length (e1 @ e2)) (?h @ e1 @ e2) c (clone lc t)"
    using tree_in_mono [OF tree_in_append [OF ct, of e2], of "length ?h" "length ?h + length (e1 @ e2)"]
    by simp
  have 2: "list_all2 (tree_in (length ?h) (length ?h + length (e1 @ e2)) (?h @ e1 @ e2)) cs
             (map (clone lc) ts')"
    using list_tree_in_mono [OF cst, of "length ?h" "length ?h + length (e1 @ e2)"]
    by simp
  have "clone_args lc k (a # as) acc \<sigma> = Some (acc @ (c # cs), \<sigma>\<lparr>objects := ?h @ (e1 @ e2)\<rparr>)"
    by (simp add: c cs)
  with 1 2 show ?case
    unfolding ts by (intro exI [of _ "c # cs"] exI [of _ "e1 @ e2"]) simp
qed


lemma foldl_emplace_functor:
  "foldl (\<lambda>obj c. obj_emplace_back c obj) (ObjUserDefinedFunctor l n as) cs
     = ObjUserDefinedFunctor l n (as @ cs)"
  by (induction cs arbitrary: as) simp_all

lemma foldl_emplace_record:
  "foldl (\<lambda>obj c. obj_emplace_back c obj) (ObjRecordInit l as) cs = ObjRecordInit l (as @ cs)"
  by (induction cs arbitrary: as) simp_all

lemma tree_in_update_outside:
  "tree_in lo hi h a t \<Longrightarrow> p < lo \<or> hi \<le> p \<Longrightarrow> tree_in lo hi (h[p := obj]) a t"
  by (erule tree_in_frame) auto

lemma list_tree_in_frame:
  "list_all2 (tree_in lo hi h) as ts \<Longrightarrow>
     (\<And>i. lo \<le> i \<Longrightarrow> i < hi \<Longrightarrow> i < length h \<Longrightarrow> i < length h' \<and> h' ! i = h ! i) \<Longrightarrow>
     list_all2 (tree_in lo hi h') as ts"
  by (erule list_all2_mono) (erule tree_in_frame, blast)

lemma clone_push_correct:
  assumes IH: "\<And>t a \<sigma>. t \<in> set ts0 \<Longrightarrow> tree_in lo hi (objects \<sigma>) a t \<Longrightarrow> hi \<le> length (objects \<sigma>) \<Longrightarrow>
      \<exists>a' ext. clone_at lc k a \<sigma> = Some (a', \<sigma>\<lparr>objects := objects \<sigma> @ ext\<rparr>) \<and>
        tree_in (length (objects \<sigma>)) (length (objects \<sigma>) + length ext) (objects \<sigma> @ ext) a'
          (clone lc t)"
  shows "list_all2 (tree_in lo hi (objects \<sigma>)) as ts \<Longrightarrow> set ts \<subseteq> set ts0 \<Longrightarrow>
     hi \<le> res \<Longrightarrow> res < length (objects \<sigma>) \<Longrightarrow>
     \<exists>cs ext. clone_push lc k res as \<sigma>
         = Some (\<sigma>\<lparr>objects := (objects \<sigma> @ ext)
                   [res := foldl (\<lambda>obj c. obj_emplace_back c obj) (objects \<sigma> ! res) cs]\<rparr>) \<and>
        list_all2 (tree_in (length (objects \<sigma>)) (length (objects \<sigma>) + length ext)
                     ((objects \<sigma> @ ext)
                        [res := foldl (\<lambda>obj c. obj_emplace_back c obj) (objects \<sigma> ! res) cs]))
          cs (map (clone lc) ts)"
proof (induction as arbitrary: ts \<sigma>)
  case Nil
  then show ?case
    by (intro exI [of _ "[]"]) simp
next
  case (Cons a as)
  from Cons.prems(1) obtain t ts' where ts: "ts = t # ts'"
    and a: "tree_in lo hi (objects \<sigma>) a t"
    and as: "list_all2 (tree_in lo hi (objects \<sigma>)) as ts'"
    by (cases ts) auto
  let ?h = "objects \<sigma>"
  let ?push = "\<lambda>obj c. obj_emplace_back c obj"
  have hi: "hi \<le> length ?h" and res: "res < length ?h" and hires: "hi \<le> res"
    using Cons.prems by simp_all
  from IH [where t = t and a = a and \<sigma> = \<sigma>] a hi Cons.prems(2) ts
  obtain c e1 where c: "clone_at lc k a \<sigma> = Some (c, \<sigma>\<lparr>objects := ?h @ e1\<rparr>)"
    and ct: "tree_in (length ?h) (length ?h + length e1) (?h @ e1) c (clone lc t)"
    by auto
  let ?h2 = "?h[res := obj_emplace_back c (?h ! res)] @ e1"
  let ?s2 = "\<sigma>\<lparr>objects := ?h2\<rparr>"
  have s2: "update_object res (obj_emplace_back c) (\<sigma>\<lparr>objects := ?h @ e1\<rparr>) = ?s2"
    using res by (simp add: update_object_def list_update_append nth_append)
  have as2: "list_all2 (tree_in lo hi (objects ?s2)) as ts'"
    using as hires by (auto intro!: list_tree_in_frame [where h = "?h"] simp: nth_append)
  have res2: "res < length (objects ?s2)"
    using res by simp
  from Cons.IH [OF as2 _ hires res2] Cons.prems(2) ts
  obtain cs e2 where cs: "clone_push lc k res as ?s2
         = Some (?s2\<lparr>objects := (objects ?s2 @ e2)[res := foldl ?push (objects ?s2 ! res) cs]\<rparr>)"
    and cst: "list_all2 (tree_in (length (objects ?s2)) (length (objects ?s2) + length e2)
                     ((objects ?s2 @ e2)[res := foldl ?push (objects ?s2 ! res) cs]))
                cs (map (clone lc) ts')"
    by auto
  let ?hf = "(?h @ e1 @ e2)[res := foldl ?push (?h ! res) (c # cs)]"
  have hf: "(objects ?s2 @ e2)[res := foldl ?push (objects ?s2 ! res) cs] = ?hf"
    using res by (simp add: list_update_append nth_append)
  have 1: "tree_in (length ?h) (length ?h + length (e1 @ e2)) ?hf c (clone lc t)"
  proof -
    have "tree_in (length ?h) (length ?h + length e1) ?hf c (clone lc t)"
      using ct by (rule tree_in_frame) (use res in \<open>auto simp: nth_append\<close>)
    then show ?thesis
      by (rule tree_in_mono) simp_all
  qed
  have 2: "list_all2 (tree_in (length ?h) (length ?h + length (e1 @ e2)) ?hf) cs (map (clone lc) ts')"
  proof -
    have "list_all2 (tree_in (length (objects ?s2)) (length (objects ?s2) + length e2) ?hf)
            cs (map (clone lc) ts')"
      using cst unfolding hf .
    then show ?thesis
      by (rule list_tree_in_mono) simp_all
  qed
  have s2f: "?s2\<lparr>objects := ?hf\<rparr> = \<sigma>\<lparr>objects := ?hf\<rparr>"
    by simp
  have "clone_push lc k res (a # as) \<sigma> = Some (\<sigma>\<lparr>objects := ?hf\<rparr>)"
    by (simp only: clone_push.simps c option.case prod.case s2 cs hf s2f)
  with 1 2 show ?case
    unfolding ts by (intro exI [of _ "c # cs"] exI [of _ "e1 @ e2"]) simp
qed


lemma size_element: "t \<in> set ts \<Longrightarrow> size t \<le> size_list size ts"
  by (induction ts) auto

lemma clone_at_correct:
  "tree_in lo hi (objects \<sigma>) a t \<Longrightarrow> hi \<le> length (objects \<sigma>) \<Longrightarrow> size t < k \<Longrightarrow>
     \<exists>a' ext. clone_at lc k a \<sigma> = Some (a', \<sigma>\<lparr>objects := objects \<sigma> @ ext\<rparr>) \<and>
       tree_in (length (objects \<sigma>)) (length (objects \<sigma>) + length ext) (objects \<sigma> @ ext) a'
         (clone lc t)"
proof (induction t arbitrary: a \<sigma> k lo hi)
  case (AstVariable l n)
  then obtain k' where k: "k = Suc k'"
    by (cases k) auto
  from AstVariable show ?case
    by (intro exI [of _ "length (objects \<sigma>)"] exI [of _ "[ObjVariable l n]"])
      (simp add: k alloc_setSrcLoc clone_closed_form del: clone.simps)
next
  case (AstUnnamedVariable l)
  then obtain k' where k: "k = Suc k'"
    by (cases k) auto
  from AstUnnamedVariable show ?case
    by (intro exI [of _ "length (objects \<sigma>)"] exI [of _ "[ObjUnnamedVariable l]"])
      (simp add: k alloc_setSrcLoc clone_closed_form del: clone.simps)
next
  case (AstCounter l)
  then obtain k' where k: "k = Suc k'"
    by (cases k) auto
  from AstCounter show ?case
    by (intro exI [of _ "length (objects \<sigma>)"] exI [of _ "[ObjCounter l]"])
      (simp add: k alloc_setSrcLoc clone_closed_form del: clone.simps)
next
  case (AstStringConstant l st r)
  then obtain k' where k: "k = Suc k'"
    by (cases k) auto
  from AstStringConstant show ?case
    by (intro exI [of _ "length (objects \<sigma>)"] exI [of _ "[ObjStringConstant l st r]"])
      (simp add: k new_AstStringConstant_index_at_def alloc_setSrcLoc size_t_roundtrip
        clone_closed_form del: clone.simps)
next
  case (AstNumericConstant l ty r)
  then obtain k' where k: "k = Suc k'"
    by (cases k) auto
  from AstNumericConstant show ?case
    by (intro exI [of _ "length (objects \<sigma>)"] exI [of _ "[ObjNumericConstant l ty r]"])
      (simp add: k alloc_setSrcLoc ramBitCast_def clone_closed_form del: clone.simps)
next
  case (AstNullConstant l)
  then obtain k' where k: "k = Suc k'"
    by (cases k) auto
  from AstNullConstant show ?case
    by (intro exI [of _ "length (objects \<sigma>)"] exI [of _ "[ObjNullConstant l]"])
      (simp add: k alloc_setSrcLoc clone_closed_form del: clone.simps)
next
  case (AstSubroutineArgument l n)
  then obtain k' where k: "k = Suc k'"
    by (cases k) auto
  from AstSubroutineArgument show ?case
    by (intro exI [of _ "length (objects \<sigma>)"] exI [of _ "[ObjSubroutineArgument l n]"])
      (simp add: k alloc_setSrcLoc clone_closed_form del: clone.simps)
next
  case (AstIntrinsicFunctor l f ts)
  let ?h = "objects \<sigma>"
  from AstIntrinsicFunctor.prems obtain k' where k: "k = Suc k'"
    by (cases k) auto
  from AstIntrinsicFunctor.prems(1) obtain as where a: "a < length ?h"
    and obj: "?h ! a = ObjIntrinsicFunctor l f as"
    and as: "list_all2 (tree_in lo hi ?h) as ts"
    by (cases "?h ! a") auto
  have IH: "\<exists>a' ext. clone_at lc k' a \<sigma> = Some (a', \<sigma>\<lparr>objects := objects \<sigma> @ ext\<rparr>) \<and>
        tree_in (length (objects \<sigma>)) (length (objects \<sigma>) + length ext) (objects \<sigma> @ ext) a'
          (clone lc t)"
    if "t \<in> set ts" "tree_in lo hi (objects \<sigma>) a t" "hi \<le> length (objects \<sigma>)"
    for t a and \<sigma> :: "('a, 'b) store"
  proof -
    have "size t < k'"
      using size_element [OF that(1)] AstIntrinsicFunctor.prems(3) k by simp
    with that show ?thesis
      by (intro AstIntrinsicFunctor.IH)
  qed
  from clone_args_correct [of ts lo hi lc k' \<sigma> as ts "[]", OF IH as _ AstIntrinsicFunctor.prems(2)]
  obtain cs e where cs: "clone_args lc k' as [] \<sigma> = Some (cs, \<sigma>\<lparr>objects := ?h @ e\<rparr>)"
    and cst: "list_all2 (tree_in (length ?h) (length ?h + length e) (?h @ e)) cs (map (clone lc) ts)"
    by auto
  let ?ext = "e @ [ObjIntrinsicFunctor l f cs]"
  have 1: "clone_at lc k a \<sigma> = Some (length ?h + length e, \<sigma>\<lparr>objects := ?h @ ?ext\<rparr>)"
    using a by (simp add: k obj cs alloc_setSrcLoc)
  have 2: "list_all2 (tree_in (length ?h) (length ?h + length ?ext) (?h @ ?ext)) cs (map (clone lc) ts)"
    using list_tree_in_mono [OF list_tree_in_append [OF cst, of "[ObjIntrinsicFunctor l f cs]"],
        of "length ?h" "length ?h + length ?ext"]
    by simp
  have 3: "tree_in (length ?h) (length ?h + length ?ext) (?h @ ?ext) (length ?h + length e)
             (clone lc (AstIntrinsicFunctor l f ts))"
    using 2 by (simp add: clone_closed_form nth_append del: clone.simps)
  from 1 3 show ?case
    by blast
next
  case (AstUserDefinedFunctor l n ts)
  let ?h = "objects \<sigma>"
  let ?push = "\<lambda>obj c. obj_emplace_back c obj"
  from AstUserDefinedFunctor.prems obtain k' where k: "k = Suc k'"
    by (cases k) auto
  from AstUserDefinedFunctor.prems(1) obtain as where a: "a < length ?h"
    and obj: "?h ! a = ObjUserDefinedFunctor l n as"
    and as: "list_all2 (tree_in lo hi ?h) as ts"
    by (cases "?h ! a") auto
  have IH: "\<exists>a' ext. clone_at lc k' a \<sigma> = Some (a', \<sigma>\<lparr>objects := objects \<sigma> @ ext\<rparr>) \<and>
        tree_in (length (objects \<sigma>)) (length (objects \<sigma>) + length ext) (objects \<sigma> @ ext) a'
          (clone lc t)"
    if "t \<in> set ts" "tree_in lo hi (objects \<sigma>) a t" "hi \<le> length (objects \<sigma>)"
    for t a and \<sigma> :: "('a, 'b) store"
  proof -
    have "size t < k'"
      using size_element [OF that(1)] AstUserDefinedFunctor.prems(3) k by simp
    with that show ?thesis
      by (intro AstUserDefinedFunctor.IH)
  qed
  let ?O = "ObjUserDefinedFunctor default_loc [] [] :: ('a, 'b) object"
  let ?s1 = "\<sigma>\<lparr>objects := ?h @ [?O]\<rparr>"
  have as1: "list_all2 (tree_in lo hi (objects ?s1)) as ts"
    using as by (simp add: list_tree_in_append)
  have res1: "length ?h < length (objects ?s1)"
    by simp
  from clone_push_correct [of ts lo hi lc k' ?s1 as ts "length ?h", OF IH as1 _
      AstUserDefinedFunctor.prems(2) res1]
  obtain cs e where cs: "clone_push lc k' (length ?h) as ?s1
       = Some (?s1\<lparr>objects := (objects ?s1 @ e)[length ?h := foldl ?push (objects ?s1 ! length ?h) cs]\<rparr>)"
    and cst: "list_all2 (tree_in (length (objects ?s1)) (length (objects ?s1) + length e)
                ((objects ?s1 @ e)[length ?h := foldl ?push (objects ?s1 ! length ?h) cs]))
              cs (map (clone lc) ts)"
    by auto
  let ?ext = "ObjUserDefinedFunctor l n cs # e"
  have hf: "(objects ?s1 @ e)[length ?h := foldl ?push (objects ?s1 ! length ?h) cs]
              = ?h @ ObjUserDefinedFunctor default_loc [] cs # e"
    by (simp add: foldl_emplace_functor)
  have 1: "clone_at lc k a \<sigma> = Some (length ?h, \<sigma>\<lparr>objects := ?h @ ?ext\<rparr>)"
    using a
    by (simp add: k obj alloc_def cs foldl_emplace_functor setSrcLoc_at_def setName_at_def
        update_object_def)
  have 2: "list_all2 (tree_in (length ?h) (length ?h + length ?ext) (?h @ ?ext)) cs (map (clone lc) ts)"
  proof -
    have "list_all2 (tree_in (Suc (length ?h)) (Suc (length ?h) + length e)
              (?h @ ObjUserDefinedFunctor default_loc [] cs # e)) cs (map (clone lc) ts)"
      using cst unfolding hf by simp
    then have "list_all2 (tree_in (Suc (length ?h)) (Suc (length ?h) + length e) (?h @ ?ext))
              cs (map (clone lc) ts)"
      by (rule list_tree_in_frame) (auto simp: nth_append nth_Cons split: nat.splits)
    then show ?thesis
      by (rule list_tree_in_mono) simp_all
  qed
  have 3: "tree_in (length ?h) (length ?h + length ?ext) (?h @ ?ext) (length ?h)
             (clone lc (AstUserDefinedFunctor l n ts))"
    using 2 by (simp add: clone_closed_form del: clone.simps)
  from 1 3 show ?case
    by blast
next
  case (AstRecordInit l ts)
  let ?h = "objects \<sigma>"
  let ?push = "\<lambda>obj c. obj_emplace_back c obj"
  from AstRecordInit.prems obtain k' where k: "k = Suc k'"
    by (cases k) auto
  from AstRecordInit.prems(1) obtain as where a: "a < length ?h"
    and obj: "?h ! a = ObjRecordInit l as"
    and as: "list_all2 (tree_in lo hi ?h) as ts"
    by (cases "?h ! a") auto
  have IH: "\<exists>a' ext. clone_at lc k' a \<sigma> = Some (a', \<sigma>\<lparr>objects := objects \<sigma> @ ext\<rparr>) \<and>
        tree_in (length (objects \<sigma>)) (length (objects \<sigma>) + length ext) (objects \<sigma> @ ext) a'
          (clone lc t)"
    if "t \<in> set ts" "tree_in lo hi (objects \<sigma>) a t" "hi \<le> length (objects \<sigma>)"
    for t a and \<sigma> :: "('a, 'b) store"
  proof -
    have "size t < k'"
      using size_element [OF that(1)] AstRecordInit.prems(3) k by simp
    with that show ?thesis
      by (intro AstRecordInit.IH)
  qed
  let ?O = "ObjRecordInit default_loc [] :: ('a, 'b) object"
  let ?s1 = "\<sigma>\<lparr>objects := ?h @ [?O]\<rparr>"
  have as1: "list_all2 (tree_in lo hi (objects ?s1)) as ts"
    using as by (simp add: list_tree_in_append)
  have res1: "length ?h < length (objects ?s1)"
    by simp
  from clone_push_correct [of ts lo hi lc k' ?s1 as ts "length ?h", OF IH as1 _
      AstRecordInit.prems(2) res1]
  obtain cs e where cs: "clone_push lc k' (length ?h) as ?s1
       = Some (?s1\<lparr>objects := (objects ?s1 @ e)[length ?h := foldl ?push (objects ?s1 ! length ?h) cs]\<rparr>)"
    and cst: "list_all2 (tree_in (length (objects ?s1)) (length (objects ?s1) + length e)
                ((objects ?s1 @ e)[length ?h := foldl ?push (objects ?s1 ! length ?h) cs]))
              cs (map (clone lc) ts)"
    by auto
  let ?ext = "ObjRecordInit l cs # e"
  have hf: "(objects ?s1 @ e)[length ?h := foldl ?push (objects ?s1 ! length ?h) cs]
              = ?h @ ObjRecordInit default_loc cs # e"
    by (simp add: foldl_emplace_record)
  have 1: "clone_at lc k a \<sigma> = Some (length ?h, \<sigma>\<lparr>objects := ?h @ ?ext\<rparr>)"
    using a
    by (simp add: k obj alloc_def cs foldl_emplace_record setSrcLoc_at_def update_object_def)
  have 2: "list_all2 (tree_in (length ?h) (length ?h + length ?ext) (?h @ ?ext)) cs (map (clone lc) ts)"
  proof -
    have "list_all2 (tree_in (Suc (length ?h)) (Suc (length ?h) + length e)
              (?h @ ObjRecordInit default_loc cs # e)) cs (map (clone lc) ts)"
      using cst unfolding hf by simp
    then have "list_all2 (tree_in (Suc (length ?h)) (Suc (length ?h) + length e) (?h @ ?ext))
              cs (map (clone lc) ts)"
      by (rule list_tree_in_frame) (auto simp: nth_append nth_Cons split: nat.splits)
    then show ?thesis
      by (rule list_tree_in_mono) simp_all
  qed
  have 3: "tree_in (length ?h) (length ?h + length ?ext) (?h @ ?ext) (length ?h)
             (clone lc (AstRecordInit l ts))"
    using 2 by (simp add: clone_closed_form del: clone.simps)
  from 1 3 show ?case
    by blast
next
  case (AstTypeCast l v ty)
  let ?h = "objects \<sigma>"
  from AstTypeCast.prems obtain k' where k: "k = Suc k'"
    by (cases k) auto
  from AstTypeCast.prems(1) obtain p where a: "a < length ?h"
    and obj: "?h ! a = ObjTypeCast l p ty"
    and p: "tree_in lo hi ?h p v"
    by (cases "?h ! a") auto
  have "size v < k'"
    using AstTypeCast.prems(3) k by simp
  from AstTypeCast.IH [OF p AstTypeCast.prems(2) this]
  obtain c e where c: "clone_at lc k' p \<sigma> = Some (c, \<sigma>\<lparr>objects := ?h @ e\<rparr>)"
    and ct: "tree_in (length ?h) (length ?h + length e) (?h @ e) c (clone lc v)"
    by auto
  let ?ext = "e @ [ObjTypeCast l c ty]"
  have 1: "clone_at lc k a \<sigma> = Some (length ?h + length e, \<sigma>\<lparr>objects := ?h @ ?ext\<rparr>)"
    using a by (simp add: k obj c alloc_setSrcLoc)
  have 2: "tree_in (length ?h) (length ?h + length ?ext) (?h @ ?ext) c (clone lc v)"
    using tree_in_mono [OF tree_in_append [OF ct, of "[ObjTypeCast l c ty]"],
        of "length ?h" "length ?h + length ?ext"]
    by simp
  have 3: "tree_in (length ?h) (length ?h + length ?ext) (?h @ ?ext) (length ?h + length e)
             (clone lc (AstTypeCast l v ty))"
    using 2 by (simp add: clone_closed_form nth_append del: clone.simps)
  from 1 3 show ?case
    by blast
next
  case (AstAggregator l f e b)
  let ?h = "objects \<sigma>"
  from AstAggregator.prems obtain k' where k: "k = Suc k'"
    by (cases k) auto
  show ?case
  proof (cases e)
    case None
    with AstAggregator.prems(1) have a: "a < length ?h"
      and obj: "?h ! a = ObjAggregator l f None b"
      by (cases "?h ! a"; auto)+
    show ?thesis
      using a
      by (intro exI [of _ "length ?h"] exI [of _ "[ObjAggregator l f None (map lc b)]"])
        (simp add: k obj None AstAggregator_clone_at_def alloc_def setSrcLoc_at_def
          update_object_def clone_closed_form del: clone.simps)
  next
    case (Some x)
    with AstAggregator.prems(1) obtain p where a: "a < length ?h"
      and obj: "?h ! a = ObjAggregator l f (Some p) b"
      and p: "tree_in lo hi ?h p x"
      by (cases "?h ! a") (auto split: option.splits)
    have "size x < k'"
      using AstAggregator.prems(3) k Some by simp
    from AstAggregator.IH [OF _ p AstAggregator.prems(2) this] Some
    obtain c ex where c: "clone_at lc k' p \<sigma> = Some (c, \<sigma>\<lparr>objects := ?h @ ex\<rparr>)"
      and ct: "tree_in (length ?h) (length ?h + length ex) (?h @ ex) c (clone lc x)"
      by auto
    let ?ext = "ex @ [ObjAggregator l f (Some c) (map lc b)]"
    have 1: "clone_at lc k a \<sigma> = Some (length ?h + length ex, \<sigma>\<lparr>objects := ?h @ ?ext\<rparr>)"
      using a
      by (simp add: k obj c AstAggregator_clone_at_def alloc_def setSrcLoc_at_def update_object_def)
    have 2: "tree_in (length ?h) (length ?h + length ?ext) (?h @ ?ext) c (clone lc x)"
      using tree_in_mono [OF tree_in_append [OF ct, of "[ObjAggregator l f (Some c) (map lc b)]"],
          of "length ?h" "length ?h + length ?ext"]
      by simp
    have 3: "tree_in (length ?h) (length ?h + length ?ext) (?h @ ?ext) (length ?h + length ex)
               (clone lc (AstAggregator l f e b))"
      using 2 by (simp add: Some clone_closed_form nth_append del: clone.simps)
    from 1 3 show ?thesis
      by blast
  qed
qed

lemma tree_in_range: "tree_in lo hi h a t \<Longrightarrow> lo \<le> a \<and> a < hi \<and> a < length h"
  by (cases t) simp_all

lemma clone_literal_id: "clone (\<lambda>lit. lit) x = x"
proof (induction x)
  case (AstAggregator l f e b)
  then show ?case
    by (cases e) (simp_all add: clone_closed_form del: clone.simps)
qed (simp_all add: clone_closed_form map_idI del: clone.simps)

text \<open>
  C2. Let the objects at address \<open>a\<close> of a store be the tree \<open>x\<close>, and let the clone
  of every literal be equal to the literal. With fuel above the size of \<open>x\<close>,
  \<open>clone\<close> returns; the address it returns did not exist before, the store has only
  grown, and the new objects are the tree \<open>clone lc x\<close>, every one of them at a new
  address. \<open>clone lc x\<close> has the class and the location of \<open>x\<close>, its children are the
  clones of the children of \<open>x\<close> in order, it is \<open>x\<close> itself when literals are
  copied exactly, and the comparison of \<open>x\<close> with it is true.
\<close>

theorem clone_contract:
  assumes "tree_at \<sigma> a x" and "size x < k" and "\<And>lit. le lit (lc lit)"
  shows "(\<exists>a' ext. clone_at lc k a \<sigma> = Some (a', \<sigma>\<lparr>objects := objects \<sigma> @ ext\<rparr>) \<and>
            length (objects \<sigma>) \<le> a' \<and>
            tree_in (length (objects \<sigma>)) (length (objects \<sigma>) + length ext) (objects \<sigma> @ ext) a'
              (clone lc x)) \<and>
         typeid (clone lc x) = typeid x \<and>
         getSrcLoc (clone lc x) = getSrcLoc x \<and>
         getChildNodes (clone lc x) = map (clone_node lc) (getChildNodes x) \<and>
         clone (\<lambda>lit. lit) x = x \<and>
         node_eq le x (clone lc x) = Inr True"
proof -
  from assms(1) have "tree_in 0 (length (objects \<sigma>)) (objects \<sigma>) a x"
    by (simp add: tree_at_def)
  from clone_at_correct [OF this _ assms(2), of lc]
  obtain a' ext where 1: "clone_at lc k a \<sigma> = Some (a', \<sigma>\<lparr>objects := objects \<sigma> @ ext\<rparr>)"
    and 2: "tree_in (length (objects \<sigma>)) (length (objects \<sigma>) + length ext) (objects \<sigma> @ ext) a'
              (clone lc x)"
    by auto
  from tree_in_range [OF 2] have 3: "length (objects \<sigma>) \<le> a'"
    by simp
  have 4: "node_eq le x (clone lc x) = Inr True"
    using assms(3) by (simp add: node_eq_structurally_equal structurally_equal_clone)
  from 1 2 3 4 show ?thesis
    by (simp only: typeid_clone getSrcLoc_clone getChildNodes_clone clone_literal_id) blast
qed

theorem clone_contract_witness:
  "tree_at \<lparr>objects = [ObjVariable default_loc ''x'', ObjTypeCast default_loc 0 [''number'']],
             tables = \<lambda>st. []\<rparr> 1
     (AstTypeCast default_loc (AstVariable default_loc ''x'') [''number''] :: (nat, nat) AstArgument) \<and>
   size (AstTypeCast default_loc (AstVariable default_loc ''x'') [''number''] :: (nat, nat) AstArgument) < 3 \<and>
   (\<forall>lit::nat. lit = lit) \<and>
   clone_at (\<lambda>lit. lit) 3 1
       \<lparr>objects = [ObjVariable default_loc ''x'', ObjTypeCast default_loc 0 [''number'']],
        tables = \<lambda>st. []\<rparr>
     = Some (3, \<lparr>objects = [ObjVariable default_loc ''x'', ObjTypeCast default_loc 0 [''number''],
                            ObjVariable default_loc ''x'', ObjTypeCast default_loc 2 [''number'']
                              :: (nat, nat) object],
                 tables = \<lambda>st. []\<rparr>) \<and>
   node_eq (=)
     (AstTypeCast default_loc (AstVariable default_loc ''x'') [''number''] :: (nat, nat) AstArgument)
     (clone (\<lambda>lit. lit) (AstTypeCast default_loc (AstVariable default_loc ''x'') [''number'']))
     = Inr True"
proof -
  let ?s = "\<lparr>objects = [ObjVariable default_loc ''x'', ObjTypeCast default_loc 0 [''number'']],
             tables = \<lambda>st. []\<rparr> :: (nat, nat) store"
  let ?x = "AstTypeCast default_loc (AstVariable default_loc ''x'') [''number''] :: (nat, nat) AstArgument"
  have 1: "tree_at ?s 1 ?x"
    by (simp add: tree_at_def)
  have 2: "size ?x < 3"
    by simp
  have 3: "\<forall>lit::nat. lit = lit"
    by simp
  have 4: "clone_at (\<lambda>lit. lit) 3 1 ?s
     = Some (3, \<lparr>objects = [ObjVariable default_loc ''x'', ObjTypeCast default_loc 0 [''number''],
                            ObjVariable default_loc ''x'', ObjTypeCast default_loc 2 [''number'']],
                 tables = \<lambda>st. []\<rparr>)"
    by (simp add: numeral_3_eq_3 alloc_def setSrcLoc_at_def update_object_def)
  have 5: "node_eq (=) ?x (clone (\<lambda>lit. lit) ?x) = Inr True"
    using clone_contract [of ?s 1 ?x 3 "(=)" "\<lambda>lit. lit", OF 1 2] by blast
  show ?thesis
    by (intro conjI) (rule 1 2 3 4 5)+
qed

text \<open>
  C7. Let the objects at address \<open>a\<close> of a store be the tree \<open>x\<close>. With fuel above the
  size of \<open>x\<close>, \<open>clone\<close> returns an address and a store in which all objects of the
  clone are at addresses that did not exist before, while \<open>x\<close> is still at \<open>a\<close>, made
  of the old objects alone. Hence no object belongs to both, and whatever is written
  afterwards into an object of the clone or of anything the clone owns (any update of any
  new address, \<open>setName\<close> among them) leaves \<open>x\<close> at \<open>a\<close>, in the same old objects.
\<close>

theorem clone_shares_nothing:
  assumes "tree_at \<sigma> a x" and "size x < k"
  shows "\<exists>a' \<sigma>'. clone_at lc k a \<sigma> = Some (a', \<sigma>') \<and>
           tree_in (length (objects \<sigma>)) (length (objects \<sigma>')) (objects \<sigma>') a' (clone lc x) \<and>
           tree_in 0 (length (objects \<sigma>)) (objects \<sigma>') a x \<and>
           (\<forall>b g. length (objects \<sigma>) \<le> b \<longrightarrow>
              tree_in 0 (length (objects \<sigma>)) (objects (update_object b g \<sigma>')) a x \<and>
              tree_at (update_object b g \<sigma>') a x) \<and>
           (\<forall>b n. length (objects \<sigma>) \<le> b \<longrightarrow> tree_at (setName_at b n \<sigma>') a x)"
proof -
  let ?n = "length (objects \<sigma>)"
  from assms(1) have x: "tree_in 0 ?n (objects \<sigma>) a x"
    by (simp add: tree_at_def)
  from clone_at_correct [OF this _ assms(2), of lc]
  obtain a' ext where 1: "clone_at lc k a \<sigma> = Some (a', \<sigma>\<lparr>objects := objects \<sigma> @ ext\<rparr>)"
    and 2: "tree_in ?n (?n + length ext) (objects \<sigma> @ ext) a' (clone lc x)"
    by auto
  let ?s' = "\<sigma>\<lparr>objects := objects \<sigma> @ ext\<rparr>"
  have 3: "tree_in 0 ?n (objects ?s') a x"
    using x by (simp add: tree_in_append)
  have 4: "tree_in 0 ?n (objects (update_object b g ?s')) a x" if "?n \<le> b" for b g
    using tree_in_update_outside [OF 3, of b] that by (simp add: update_object_def)
  have 5: "tree_at (update_object b g ?s') a x" if "?n \<le> b" for b g
    using tree_in_mono [OF 4 [OF that, of g], of 0 "length (objects (update_object b g ?s'))"]
    by (simp add: tree_at_def update_object_def)
  have 6: "tree_at (setName_at b n ?s') a x" if "?n \<le> b" for b n
    using 5 [OF that] by (simp add: setName_at_def)
  have 7: "tree_in ?n (length (objects ?s')) (objects ?s') a' (clone lc x)"
    using 2 by simp
  from 1 7 3 4 5 6 show ?thesis
    by blast
qed

theorem clone_shares_nothing_witness:
  "tree_at \<lparr>objects = [ObjVariable default_loc ''x'', ObjTypeCast default_loc 0 [''number'']],
             tables = \<lambda>st. []\<rparr> 1
     (AstTypeCast default_loc (AstVariable default_loc ''x'') [''number''] :: (nat, nat) AstArgument) \<and>
   size (AstTypeCast default_loc (AstVariable default_loc ''x'') [''number''] :: (nat, nat) AstArgument) < 3 \<and>
   clone_at (\<lambda>lit. lit) 3 1
       \<lparr>objects = [ObjVariable default_loc ''x'', ObjTypeCast default_loc 0 [''number'']],
        tables = \<lambda>st. []\<rparr>
     = Some (3, \<lparr>objects = [ObjVariable default_loc ''x'', ObjTypeCast default_loc 0 [''number''],
                            ObjVariable default_loc ''x'', ObjTypeCast default_loc 2 [''number'']
                              :: (nat, nat) object],
                 tables = \<lambda>st. []\<rparr>) \<and>
   getValue_at 3 \<lparr>objects = [ObjVariable default_loc ''x'', ObjTypeCast default_loc 0 [''number''],
                            ObjVariable default_loc ''x'', ObjTypeCast default_loc 2 [''number'']
                              :: (nat, nat) object],
                 tables = \<lambda>st. []\<rparr> = Some 2 \<and>
   tree_at (setName_at 2 ''y''
              \<lparr>objects = [ObjVariable default_loc ''x'', ObjTypeCast default_loc 0 [''number''],
                          ObjVariable default_loc ''x'', ObjTypeCast default_loc 2 [''number'']],
               tables = \<lambda>st. []\<rparr>) 3
     (AstTypeCast default_loc (AstVariable default_loc ''y'') [''number''] :: (nat, nat) AstArgument) \<and>
   tree_at (setName_at 2 ''y''
              \<lparr>objects = [ObjVariable default_loc ''x'', ObjTypeCast default_loc 0 [''number''],
                          ObjVariable default_loc ''x'', ObjTypeCast default_loc 2 [''number'']],
               tables = \<lambda>st. []\<rparr>) 1
     (AstTypeCast default_loc (AstVariable default_loc ''x'') [''number''] :: (nat, nat) AstArgument)"
proof -
  let ?s = "\<lparr>objects = [ObjVariable default_loc ''x'', ObjTypeCast default_loc 0 [''number'']],
             tables = \<lambda>st. []\<rparr> :: (nat, nat) store"
  let ?s' = "\<lparr>objects = [ObjVariable default_loc ''x'', ObjTypeCast default_loc 0 [''number''],
                          ObjVariable default_loc ''x'', ObjTypeCast default_loc 2 [''number'']],
               tables = \<lambda>st. []\<rparr> :: (nat, nat) store"
  let ?x = "AstTypeCast default_loc (AstVariable default_loc ''x'') [''number''] :: (nat, nat) AstArgument"
  let ?y = "AstTypeCast default_loc (AstVariable default_loc ''y'') [''number''] :: (nat, nat) AstArgument"
  have 1: "tree_at ?s 1 ?x"
    by (simp add: tree_at_def)
  have 2: "size ?x < 3"
    by simp
  have 3: "clone_at (\<lambda>lit. lit) 3 1 ?s = Some (3, ?s')"
    by (simp add: numeral_3_eq_3 alloc_def setSrcLoc_at_def update_object_def)
  have 4: "getValue_at 3 ?s' = Some 2"
    by (simp add: getValue_at_def)
  have 5: "tree_at (setName_at 2 ''y'' ?s') 3 ?y"
    by (simp add: tree_at_def setName_at_def update_object_def)
  from clone_shares_nothing [of ?s 1 ?x 3 "\<lambda>lit. lit", OF 1 2]
  obtain a' \<sigma>' where c: "clone_at (\<lambda>lit. lit) 3 1 ?s = Some (a', \<sigma>')"
    and f: "\<forall>b n. length (objects ?s) \<le> b \<longrightarrow> tree_at (setName_at b n \<sigma>') 1 ?x"
    by blast
  from c 3 have "\<sigma>' = ?s'"
    by simp
  with f have 6: "tree_at (setName_at 2 ''y'' ?s') 1 ?x"
    by simp
  show ?thesis
    by (intro conjI) (rule 1 2 3 4 5 6)+
qed

text \<open>
  C10. The clone of a string constant is a new object with the same table reference,
  the same word and the same location: the word goes to the private constructor as a
  \<open>size_t\<close> and comes back unchanged. The symbol tables of the store are the same after
  the call, and the call gives the same object and the same address whatever the tables
  hold, so it does not read them. The public constructor, in contrast, stores the word
  that \<open>lookup\<close> returns and leaves the table that \<open>lookup\<close> returns.
\<close>

theorem string_constant_clone:
  assumes "a < length (objects \<sigma>)" and "objects \<sigma> ! a = ObjStringConstant l st r"
  shows "clone_at lc (Suc k) a \<sigma>
           = Some (length (objects \<sigma>), \<sigma>\<lparr>objects := objects \<sigma> @ [ObjStringConstant l st r]\<rparr>) \<and>
         tables (\<sigma>\<lparr>objects := objects \<sigma> @ [ObjStringConstant l st r]\<rparr>) = tables \<sigma> \<and>
         clone_at lc (Suc k) a (\<sigma>\<lparr>tables := T\<rparr>)
           = Some (length (objects \<sigma>),
                   \<sigma>\<lparr>objects := objects \<sigma> @ [ObjStringConstant l st r], tables := T\<rparr>) \<and>
         new_AstStringConstant_index_at st (scast r) \<sigma>
           = (length (objects \<sigma>), \<sigma>\<lparr>objects := objects \<sigma> @ [ObjStringConstant default_loc st r]\<rparr>) \<and>
         (ucast (scast r :: size_t) :: RamDomain) = r \<and>
         clone lc (AstStringConstant l st r) = AstStringConstant l st r \<and>
         new_AstStringConstant_at st c \<sigma>
           = (length (objects \<sigma>),
              \<sigma>\<lparr>objects := objects \<sigma> @ [ObjStringConstant default_loc st (fst (lookup (tables \<sigma> st) c))],
                tables := (tables \<sigma>)(st := snd (lookup (tables \<sigma> st) c))\<rparr>)"
  using assms
  by (simp add: new_AstStringConstant_index_at_def alloc_def setSrcLoc_at_def update_object_def
      size_t_roundtrip clone_closed_form new_AstStringConstant_at_def
      split: prod.splits del: clone.simps)

theorem string_constant_clone_witness:
  "(0::nat) < length (objects \<lparr>objects = [ObjStringConstant default_loc 0 0 :: (nat, nat) object],
                               tables = \<lambda>st. [''a'']\<rparr>) \<and>
   objects \<lparr>objects = [ObjStringConstant default_loc 0 0 :: (nat, nat) object],
            tables = \<lambda>st. [''a'']\<rparr> ! 0 = ObjStringConstant default_loc 0 0 \<and>
   clone_at (\<lambda>lit. lit) 1 0 \<lparr>objects = [ObjStringConstant default_loc 0 0 :: (nat, nat) object],
                              tables = \<lambda>st. [''a'']\<rparr>
     = Some (1, \<lparr>objects = [ObjStringConstant default_loc 0 0, ObjStringConstant default_loc 0 0],
                 tables = \<lambda>st. [''a'']\<rparr>) \<and>
   new_AstStringConstant_at 0 ''b'' \<lparr>objects = [ObjStringConstant default_loc 0 0 :: (nat, nat) object],
                                     tables = \<lambda>st. [''a'']\<rparr>
     = (1, \<lparr>objects = [ObjStringConstant default_loc 0 0, ObjStringConstant default_loc 0 1],
            tables = (\<lambda>st. [''a''])(0 := [''a'', ''b''])\<rparr>)"
proof -
  let ?s = "\<lparr>objects = [ObjStringConstant default_loc 0 0 :: (nat, nat) object],
             tables = \<lambda>st. [''a'']\<rparr>"
  have 1: "(0::nat) < length (objects ?s)"
    by simp
  have 2: "objects ?s ! 0 = ObjStringConstant default_loc 0 0"
    by simp
  note P = string_constant_clone [OF 1 2, of "\<lambda>lit. lit" 0 "\<lambda>st. []" "''b''"]
  have 3: "clone_at (\<lambda>lit. lit) 1 0 ?s
     = Some (1, \<lparr>objects = [ObjStringConstant default_loc 0 0, ObjStringConstant default_loc 0 0],
                 tables = \<lambda>st. [''a'']\<rparr>)"
    using P [THEN conjunct1] by simp
  have 4: "new_AstStringConstant_at 0 ''b'' ?s
     = (1, \<lparr>objects = [ObjStringConstant default_loc 0 0, ObjStringConstant default_loc 0 1],
            tables = (\<lambda>st. [''a''])(0 := [''a'', ''b''])\<rparr>)"
    by (simp add: new_AstStringConstant_at_def lookup_def alloc_def)
  show ?thesis
    by (intro conjI) (rule 1 2 3 4)+
qed

subsection \<open>Numeric constants\<close>

lemma unat_word_of_nat_32: "N < 2 ^ 32 \<Longrightarrow> unat (word_of_nat N :: 32 word) = N"
  by (simp add: unat_of_nat)

lemma sign_bit_unat: "bit (w :: 32 word) 31 = odd (unat w div 2 ^ 31)"
proof -
  have "bit w 31 = bit (unat w) 31"
    by (simp add: bit_unsigned_iff)
  also have "\<dots> = odd (unat w div 2 ^ 31)"
    by (rule bit_iff_odd)
  finally show ?thesis .
qed

lemma float_layout_bound:
  assumes "e < 256" "m < 2 ^ 23"
  shows "(if s then 2 ^ 31 else 0) + e * 2 ^ 23 + m < (2 ^ 32 :: nat)"
proof -
  have "e * 2 ^ 23 \<le> 255 * (2 ^ 23 :: nat)"
    using assms(1) by simp
  with assms(2) show ?thesis
    by (cases s) simp_all
qed

lemma layout_div_mod:
  fixes m k c :: nat
  assumes "m < c"
  shows "(k * c + m) div c = k" and "(k * c + m) mod c = m"
  using assms by simp_all

lemma float_fields:
  fixes e m :: nat and s :: bool
  assumes "e < 256" "m < 2 ^ 23"
  defines "N \<equiv> (if s then 2 ^ 31 else 0) + e * 2 ^ 23 + m"
  shows "N mod 2 ^ 23 = m" and "N div 2 ^ 23 mod 256 = e" and "odd (N div 2 ^ 31) = s"
proof -
  define k :: nat where "k = (if s then 256 else 0) + e"
  have N: "N = k * 2 ^ 23 + m"
    by (simp add: N_def k_def)
  show 1: "N mod 2 ^ 23 = m"
    unfolding N using assms(2) by (rule layout_div_mod(2))
  have d: "N div 2 ^ 23 = k"
    unfolding N using assms(2) by (rule layout_div_mod(1))
  have k: "k = (if s then 1 else 0) * 256 + e"
    by (simp add: k_def)
  show "N div 2 ^ 23 mod 256 = e"
    unfolding d k using assms(1) by (rule layout_div_mod(2))
  have "N div 2 ^ 31 = N div 2 ^ 23 div 2 ^ 8"
    by (simp only: div_mult2_eq [symmetric] power_add [symmetric]) simp
  also have "\<dots> = k div 256"
    by (simp only: d) simp
  also have "\<dots> = (if s then 1 else 0)"
    unfolding k using assms(1) by (rule layout_div_mod(1))
  finally show "odd (N div 2 ^ 31) = s"
    by simp
qed

lemma float_roundtrip:
  assumes "representable f"
  shows "value_float (repr_float f) = f"
proof (cases f)
  case (IEEE s e m)
  with assms have e: "e < 256" and m: "m < 2 ^ 23"
    by simp_all
  define N :: nat where "N = (if s then 2 ^ 31 else 0) + e * 2 ^ 23 + m"
  have N: "N < 2 ^ 32"
    unfolding N_def using e m by (rule float_layout_bound)
  have u: "unat (word_of_nat N :: 32 word) = N"
    using N by (rule unat_word_of_nat_32)
  note f = float_fields [OF e m, of s, folded N_def]
  have r: "repr_float (IEEE s e m) = word_of_nat N"
    by (simp only: repr_float.simps N_def)
  show ?thesis
    by (simp only: IEEE r value_float_def sign_bit_unat u f)
qed

text \<open>
  C3 (as amended). For each numeric kind, the constant constructed from a value \<open>v\<close>
  gives back from \<open>getConstant\<close> the bit pattern of \<open>v\<close>, whatever it is. Read as
  values: every integer of the signed range and every natural number of the unsigned
  range comes back unchanged, the minimum, the maximum, 0 and -1 among them; every float
  comes back as the same float (same sign, exponent and fraction), so \<open>==\<close> between
  the result and \<open>v\<close> holds for every float that is not a NaN, both zeros and both
  infinities included, and fails exactly for the NaNs, which come back as the same NaN.
\<close>

theorem numeric_constant_roundtrip:
  "getConstant (new_AstNumericConstant k v :: ('op, 'lit) AstArgument) = v \<and>
   (- (2 ^ 31) \<le> i \<and> i < 2 ^ 31 \<longrightarrow>
      value_signed (getConstant (new_AstNumericConstant Signed (repr_signed i) :: ('op, 'lit) AstArgument))
        = i) \<and>
   (n < 2 ^ 32 \<longrightarrow>
      value_unsigned (getConstant (new_AstNumericConstant Unsigned (repr_unsigned n) :: ('op, 'lit) AstArgument))
        = n) \<and>
   (representable f \<longrightarrow>
      value_float (getConstant (new_AstNumericConstant Float (repr_float f) :: ('op, 'lit) AstArgument)) = f \<and>
      float_eq
        (value_float (getConstant (new_AstNumericConstant Float (repr_float f) :: ('op, 'lit) AstArgument)))
        f = (\<not> isNaN f))"
proof -
  have rt: "getConstant (new_AstNumericConstant k' v' :: ('op, 'lit) AstArgument) = v'" for k' v'
    by (simp add: new_AstNumericConstant_def ramBitCast_def)
  have s: "value_signed (repr_signed i) = i" if "- (2 ^ 31) \<le> i" "i < 2 ^ 31"
    using that
    by (simp add: value_signed_def repr_signed_def sint_sbintrunc' signed_take_bit_int_eq_self)
  have u: "value_unsigned (repr_unsigned n) = n" if "n < 2 ^ 32"
    using that by (simp add: value_unsigned_def repr_unsigned_def unat_of_nat)
  have fl: "value_float (repr_float f) = f \<and> float_eq (value_float (repr_float f)) f = (\<not> isNaN f)"
    if "representable f"
    using float_roundtrip [OF that] by (simp add: float_eq_def)
  show ?thesis
    unfolding rt using s u fl by blast
qed

theorem numeric_constant_roundtrip_witness:
  "value_signed (getConstant (new_AstNumericConstant Signed (repr_signed (- (2 ^ 31))) :: (nat, unit) AstArgument))
     = - (2 ^ 31) \<and>
   value_signed (getConstant (new_AstNumericConstant Signed (repr_signed (2 ^ 31 - 1)) :: (nat, unit) AstArgument))
     = 2 ^ 31 - 1 \<and>
   value_signed (getConstant (new_AstNumericConstant Signed (repr_signed (- 1)) :: (nat, unit) AstArgument))
     = - 1 \<and>
   value_unsigned (getConstant (new_AstNumericConstant Unsigned (repr_unsigned (2 ^ 32 - 1)) :: (nat, unit) AstArgument))
     = 2 ^ 32 - 1 \<and>
   value_unsigned (getConstant (new_AstNumericConstant Unsigned (repr_unsigned 0) :: (nat, unit) AstArgument))
     = 0 \<and>
   representable (IEEE True 0 0) \<and>
   value_float (getConstant (new_AstNumericConstant Float (repr_float (IEEE True 0 0)) :: (nat, unit) AstArgument))
     = IEEE True 0 0 \<and>
   float_eq
     (value_float (getConstant (new_AstNumericConstant Float (repr_float (IEEE True 0 0)) :: (nat, unit) AstArgument)))
     (IEEE True 0 0) \<and>
   representable (IEEE False 255 0) \<and>
   float_eq
     (value_float (getConstant (new_AstNumericConstant Float (repr_float (IEEE False 255 0)) :: (nat, unit) AstArgument)))
     (IEEE False 255 0) \<and>
   representable (IEEE True 255 0) \<and>
   float_eq
     (value_float (getConstant (new_AstNumericConstant Float (repr_float (IEEE True 255 0)) :: (nat, unit) AstArgument)))
     (IEEE True 255 0) \<and>
   representable (IEEE False 255 1) \<and>
   value_float (getConstant (new_AstNumericConstant Float (repr_float (IEEE False 255 1)) :: (nat, unit) AstArgument))
     = IEEE False 255 1"
proof -
  note rt = numeric_constant_roundtrip [where 'op = nat and 'lit = unit]
  have lo: "- (2 ^ 31) \<le> (- (2 ^ 31) :: int) \<and> (- (2 ^ 31) :: int) < 2 ^ 31" by simp
  have hi: "- (2 ^ 31) \<le> (2 ^ 31 - 1 :: int) \<and> (2 ^ 31 - 1 :: int) < 2 ^ 31" by simp
  have m1: "- (2 ^ 31) \<le> (- 1 :: int) \<and> (- 1 :: int) < 2 ^ 31" by simp
  have umax: "(2 ^ 32 - 1 :: nat) < 2 ^ 32" by simp
  have uz: "(0 :: nat) < 2 ^ 32" by simp
  have r1: "representable (IEEE True 0 0)" by simp
  have r2: "representable (IEEE False 255 0)" by simp
  have r3: "representable (IEEE True 255 0)" by simp
  have r4: "representable (IEEE False 255 1)" by simp
  have n1: "\<not> isNaN (IEEE True 0 0)" by simp
  have n2: "\<not> isNaN (IEEE False 255 0)" by simp
  have n3: "\<not> isNaN (IEEE True 255 0)" by simp
  note A = rt [of Signed 0 "- (2 ^ 31)" "2 ^ 32 - 1" "IEEE True 0 0"]
  note B = rt [of Signed 0 "2 ^ 31 - 1" 0 "IEEE False 255 0"]
  note C = rt [of Signed 0 "- 1" 0 "IEEE True 255 0"]
  note D = rt [of Signed 0 0 0 "IEEE False 255 1"]
  have 1: "value_signed (getConstant (new_AstNumericConstant Signed (repr_signed (- (2 ^ 31))) :: (nat, unit) AstArgument))
     = - (2 ^ 31)"
    by (rule A [THEN conjunct2, THEN conjunct1, THEN mp, OF lo])
  have 2: "value_signed (getConstant (new_AstNumericConstant Signed (repr_signed (2 ^ 31 - 1)) :: (nat, unit) AstArgument))
     = 2 ^ 31 - 1"
    by (rule B [THEN conjunct2, THEN conjunct1, THEN mp, OF hi])
  have 3: "value_signed (getConstant (new_AstNumericConstant Signed (repr_signed (- 1)) :: (nat, unit) AstArgument))
     = - 1"
    by (rule C [THEN conjunct2, THEN conjunct1, THEN mp, OF m1])
  have 4: "value_unsigned (getConstant (new_AstNumericConstant Unsigned (repr_unsigned (2 ^ 32 - 1)) :: (nat, unit) AstArgument))
     = 2 ^ 32 - 1"
    by (rule A [THEN conjunct2, THEN conjunct2, THEN conjunct1, THEN mp, OF umax])
  have 5: "value_unsigned (getConstant (new_AstNumericConstant Unsigned (repr_unsigned 0) :: (nat, unit) AstArgument))
     = 0"
    by (rule B [THEN conjunct2, THEN conjunct2, THEN conjunct1, THEN mp, OF uz])
  note fa = A [THEN conjunct2, THEN conjunct2, THEN conjunct2, THEN mp, OF r1]
  note fb = B [THEN conjunct2, THEN conjunct2, THEN conjunct2, THEN mp, OF r2]
  note fc = C [THEN conjunct2, THEN conjunct2, THEN conjunct2, THEN mp, OF r3]
  note fd = D [THEN conjunct2, THEN conjunct2, THEN conjunct2, THEN mp, OF r4]
  have 6: "value_float (getConstant (new_AstNumericConstant Float (repr_float (IEEE True 0 0)) :: (nat, unit) AstArgument))
     = IEEE True 0 0"
    by (rule fa [THEN conjunct1])
  have 7: "float_eq
     (value_float (getConstant (new_AstNumericConstant Float (repr_float (IEEE True 0 0)) :: (nat, unit) AstArgument)))
     (IEEE True 0 0)"
    using fa [THEN conjunct2] n1 by (rule iffD2)
  have 8: "float_eq
     (value_float (getConstant (new_AstNumericConstant Float (repr_float (IEEE False 255 0)) :: (nat, unit) AstArgument)))
     (IEEE False 255 0)"
    using fb [THEN conjunct2] n2 by (rule iffD2)
  have 9: "float_eq
     (value_float (getConstant (new_AstNumericConstant Float (repr_float (IEEE True 255 0)) :: (nat, unit) AstArgument)))
     (IEEE True 255 0)"
    using fc [THEN conjunct2] n3 by (rule iffD2)
  have 10: "value_float (getConstant (new_AstNumericConstant Float (repr_float (IEEE False 255 1)) :: (nat, unit) AstArgument))
     = IEEE False 255 1"
    by (rule fd [THEN conjunct1])
  show ?thesis
    by (intro conjI) (rule 1 2 3 4 5 6 7 8 9 10 r1 r2 r3 r4)+
qed

text \<open>
  C3 as stated, with \<open>==\<close> on every representable value, fails for a float NaN: the
  quiet NaN with the bit pattern \<open>0x7FC00000\<close> comes back from \<open>getConstant\<close> as itself,
  and \<open>==\<close> between a NaN and itself is false.
\<close>

theorem numeric_constant_nan_counterexample:
  "representable (IEEE False 255 (2 ^ 22)) \<and>
   repr_float (IEEE False 255 (2 ^ 22)) = 0x7FC00000 \<and>
   \<not> float_eq
     (value_float (getConstant (new_AstNumericConstant Float (repr_float (IEEE False 255 (2 ^ 22)))
        :: (nat, unit) AstArgument)))
     (IEEE False 255 (2 ^ 22))"
proof -
  have r: "representable (IEEE False 255 (2 ^ 22))"
    by simp
  have p: "repr_float (IEEE False 255 (2 ^ 22)) = 0x7FC00000"
    by simp
  have g: "getConstant (new_AstNumericConstant Float (repr_float (IEEE False 255 (2 ^ 22)))
        :: (nat, unit) AstArgument) = repr_float (IEEE False 255 (2 ^ 22))"
    by (simp only: new_AstNumericConstant_def ramBitCast_def getConstant.simps)
  have n: "\<not> float_eq (value_float (repr_float (IEEE False 255 (2 ^ 22)))) (IEEE False 255 (2 ^ 22))"
    by (simp add: float_eq_def)
  show ?thesis
    using r p n unfolding g by blast
qed

end
